(* ===== verification/Pool_Prelude.thy ===== *)
theory Pool_Prelude
  imports Main "HOL-Library.Word" "HOL-Library.Multiset"
begin

text \<open>
  Shared vocabulary of the thread-pool development: the machine types of
  \<^verbatim>\<open>src/ThreadPool.h\<close>, the thread identifiers, the named collections of
  facts that the component theories fill, and the generic lemmas on options,
  lists, multisets and 64-bit words that their proofs share.

  \<^item> \<open>size_t\<close> is a 64-bit word: \<open>+\<close> and \<open>-\<close> wrap around, \<open>unat\<close> reads it.
  \<^item> \<open>tid\<close> names a thread: the thread that owns the pool object, the \<open>k\<close>-th
    worker of the vector \<^verbatim>\<open>workers\<close>, or any other caller.
  \<^item> \<open>pool_ops\<close> collects the defining equations of the line-level operations,
    \<open>pool_steps\<close> those of the per-thread step functions, \<open>pool_invs\<close> those of
    the invariants.
\<close>

section \<open>Types\<close>

type_synonym size_t = "64 word"

datatype tid = Owner | Worker nat | Client nat

named_theorems pool_ops "defining equations of the line-level operations"
named_theorems pool_steps "defining equations of the per-thread step functions"
named_theorems pool_invs "defining equations of the invariants"

section \<open>Thread identifiers\<close>

lemma tid_all: "(\<forall>t. P t) \<longleftrightarrow> P Owner \<and> (\<forall>k. P (Worker k)) \<and> (\<forall>c. P (Client c))"
  by (metis tid.exhaust)

lemma tid_ex: "(\<exists>t. P t) \<longleftrightarrow> P Owner \<or> (\<exists>k. P (Worker k)) \<or> (\<exists>c. P (Client c))"
  by (metis tid.exhaust)

section \<open>Options\<close>

lemma bind_eq_SomeE:
  assumes "Option.bind m f = Some y"
  obtains x where "m = Some x" and "f x = Some y"
  using assms by (cases m) auto

lemma if_Some_None_eq [simp]: "((if b then Some x else None) = Some y) \<longleftrightarrow> b \<and> x = y"
  by simp

lemma if_None_Some_eq [simp]: "((if b then None else Some x) = Some y) \<longleftrightarrow> \<not> b \<and> x = y"
  by simp

section \<open>Lists\<close>

lemma hd_append_single: "xs \<noteq> [] \<Longrightarrow> hd (xs @ [x]) = hd xs"
  by simp

lemma tl_append_single: "xs \<noteq> [] \<Longrightarrow> tl (xs @ [x]) = tl xs @ [x]"
  by simp

lemma hd_Cons_tl_append: "xs \<noteq> [] \<Longrightarrow> (ys @ [hd xs]) @ tl xs = ys @ xs"
  by simp

lemma mset_hd_tl: "xs \<noteq> [] \<Longrightarrow> add_mset (hd xs) (mset (tl xs)) = mset xs"
  by (cases xs) simp_all

lemma length_tl_Suc: "xs \<noteq> [] \<Longrightarrow> Suc (length (tl xs)) = length xs"
  by (cases xs) simp_all

lemma nth_list_update_if: "(xs[i := x]) ! j = (if i = j \<and> i < length xs then x else xs ! j)"
  by (cases "i < length xs") (auto simp: nth_list_update list_update_beyond)

lemma mset_update_nth:
  "k < length xs \<Longrightarrow> mset (xs[k := y]) = add_mset y (mset xs - {#xs ! k#})"
  by (simp add: mset_update)

lemma sum_list_update_nat:
  fixes xs :: "nat list"
  shows "k < length xs \<Longrightarrow> sum_list (xs[k := y]) + xs ! k = sum_list xs + y"
  by (induction xs arbitrary: k) (auto split: nat.splits)

lemma sum_list_map_update:
  fixes f :: "'a \<Rightarrow> 'b::comm_monoid_add"
  shows "k < length xs \<Longrightarrow>
    sum_list (map f (xs[k := y])) + f (xs ! k) = sum_list (map f xs) + f y"
  by (induction xs arbitrary: k) (auto split: nat.splits simp: ac_simps)

lemma list_all_nth: "list_all P xs \<longleftrightarrow> (\<forall>k < length xs. P (xs ! k))"
  by (simp add: list_all_length)

section \<open>64-bit counters\<close>

text \<open>
  The two counter updates of the source, \<^verbatim>\<open>task_queue_size++\<close> and
  \<^verbatim>\<open>task_queue_size--\<close>, against the length of a list.
\<close>

lemma of_nat_length_snoc:
  "(of_nat (length (xs @ [x])) :: size_t) = of_nat (length xs) + 1"
  by simp

lemma of_nat_length_tl:
  "xs \<noteq> [] \<Longrightarrow> (of_nat (length (tl xs)) :: size_t) = of_nat (length xs) - 1"
  by (cases xs) simp_all

lemma of_nat_length_pred:
  "xs \<noteq> [] \<Longrightarrow> (of_nat (length xs - Suc 0) :: size_t) + 1 = of_nat (length xs)"
  by (cases xs) simp_all

lemma unat_of_nat_size_t: "n < 2 ^ 64 \<Longrightarrow> unat (of_nat n :: size_t) = n"
  by (simp add: unat_of_nat)

lemma unat_of_nat_less_unat:
  fixes n :: size_t
  assumes "k < unat n"
  shows "unat (of_nat k :: size_t) = k"
proof -
  have "unat n < 2 ^ 64"
    using unsigned_less [of n] by simp
  with assms have "k < 2 ^ 64" by simp
  then show ?thesis by (simp add: unat_of_nat)
qed

lemma of_nat_less_unat:
  fixes n :: size_t
  shows "k < unat n \<Longrightarrow> (of_nat k :: size_t) < n"
  by (simp add: word_less_nat_alt unat_of_nat_less_unat)

lemma size_t_less_Suc:
  fixes i n :: size_t
  shows "i < n \<Longrightarrow> unat (i + 1) = Suc (unat i)"
  by unat_arith

lemma upt_unat_Suc:
  fixes i n :: size_t
  assumes "i < n"
  shows "[unat i..<unat n] = unat i # [unat (i + 1)..<unat n]"
  using assms by (simp add: size_t_less_Suc upt_conv_Cons word_less_nat_alt)

lemma size_t_less_le_Suc:
  fixes i n :: size_t
  shows "i < n \<Longrightarrow> i + 1 \<le> n"
  by (simp add: inc_le)

end
