(* ===== verification/Sync.thy ===== *)
theory Sync
  imports Pool_Prelude
begin

text \<open>
  The two synchronisation objects of \<^verbatim>\<open>class ThreadPool\<close>: \<^verbatim>\<open>std::mutex queue_mutex\<close>
  and \<^verbatim>\<open>std::condition_variable condition\<close>, with the operations the source
  applies to them. A mutex is its owner, if any; a condition variable is the set
  of threads blocked in \<^verbatim>\<open>wait\<close>. An operation that would block, or that the
  C++ standard leaves undefined (unlocking a mutex one does not own), returns
  \<open>None\<close>: the calling thread has no step. \<^verbatim>\<open>wait\<close> is split in the two halves the
  standard gives it: \<open>cv_wait\<close> releases the mutex and blocks in one atomic
  action, \<open>cv_resume\<close> re-acquires the mutex once the thread has been taken out
  of the wait set, by \<open>cv_notify_one\<close>, by \<open>cv_notify_all\<close> or spuriously
  (\<open>cv_spurious\<close>).
\<close>

section \<open>The mutex\<close>

type_synonym mutex = "tid option"

definition mutex_lock :: "tid \<Rightarrow> mutex \<Rightarrow> mutex option" where
  "mutex_lock t m = (case m of None \<Rightarrow> Some (Some t) | Some _ \<Rightarrow> None)"

definition mutex_unlock :: "tid \<Rightarrow> mutex \<Rightarrow> mutex option" where
  "mutex_unlock t m = (if m = Some t then Some None else None)"

section \<open>The condition variable\<close>

type_synonym condvar = "tid set"

definition cv_wait :: "tid \<Rightarrow> mutex \<Rightarrow> condvar \<Rightarrow> (mutex \<times> condvar) option" where
  "cv_wait t m c = (if m = Some t then Some (None, insert t c) else None)"

definition cv_resume :: "tid \<Rightarrow> mutex \<Rightarrow> condvar \<Rightarrow> mutex option" where
  "cv_resume t m c = (if t \<in> c then None else mutex_lock t m)"

definition cv_notify_one :: "tid \<Rightarrow> condvar \<Rightarrow> condvar option" where
  "cv_notify_one w c = (if c = {} then Some c else if w \<in> c then Some (c - {w}) else None)"

definition cv_notify_all :: "condvar \<Rightarrow> condvar" where
  "cv_notify_all c = {}"

definition cv_spurious :: "tid \<Rightarrow> condvar \<Rightarrow> condvar option" where
  "cv_spurious w c = (if w \<in> c then Some (c - {w}) else None)"

lemmas sync_defs [pool_ops] =
  mutex_lock_def mutex_unlock_def cv_wait_def cv_resume_def
  cv_notify_one_def cv_notify_all_def cv_spurious_def

section \<open>Behaviour of the mutex\<close>

lemma mutex_lock_Some [simp]: "mutex_lock t m = Some m' \<longleftrightarrow> m = None \<and> m' = Some t"
  by (auto simp: mutex_lock_def split: option.splits)

lemma mutex_lock_free [simp]: "mutex_lock t None = Some (Some t)"
  by (simp add: mutex_lock_def)

lemma mutex_lock_held [simp]: "mutex_lock t (Some u) = None"
  by (simp add: mutex_lock_def)

lemma mutex_unlock_Some [simp]: "mutex_unlock t m = Some m' \<longleftrightarrow> m = Some t \<and> m' = None"
  by (auto simp: mutex_unlock_def)

lemma mutex_unlock_owner [simp]: "mutex_unlock t (Some t) = Some None"
  by (simp add: mutex_unlock_def)

lemma mutex_lock_None [simp]: "mutex_lock t m = None \<longleftrightarrow> m \<noteq> None"
  by (auto simp: mutex_lock_def split: option.splits)

lemma mutex_unlock_None [simp]: "mutex_unlock t m = None \<longleftrightarrow> m \<noteq> Some t"
  by (auto simp: mutex_unlock_def)

lemma mutex_lock_unlock: "Option.bind (mutex_lock t None) (mutex_unlock t) = Some None"
  by simp

lemma mutex_exclusive:
  assumes "mutex_lock t m = Some m'"
  shows "mutex_lock u m' = None"
  using assms by auto

section \<open>Behaviour of the condition variable\<close>

lemma cv_wait_Some [simp]:
  "cv_wait t m c = Some (m', c') \<longleftrightarrow> m = Some t \<and> m' = None \<and> c' = insert t c"
  by (auto simp: cv_wait_def)

lemma cv_wait_None [simp]: "cv_wait t m c = None \<longleftrightarrow> m \<noteq> Some t"
  by (auto simp: cv_wait_def)

lemma cv_resume_Some [simp]:
  "cv_resume t m c = Some m' \<longleftrightarrow> t \<notin> c \<and> m = None \<and> m' = Some t"
  by (auto simp: cv_resume_def)

lemma cv_notify_one_Some [simp]:
  "cv_notify_one w c = Some c' \<longleftrightarrow> (c = {} \<and> c' = {}) \<or> (w \<in> c \<and> c' = c - {w})"
  by (auto simp: cv_notify_one_def)

lemma cv_spurious_Some [simp]: "cv_spurious w c = Some c' \<longleftrightarrow> w \<in> c \<and> c' = c - {w}"
  by (auto simp: cv_spurious_def)

lemma cv_notify_all_empty [simp]: "cv_notify_all c = {}"
  by (simp add: cv_notify_all_def)

text \<open>A blocked thread cannot return from \<^verbatim>\<open>wait\<close> before it is taken out of the wait set.\<close>

lemma cv_wait_blocks:
  assumes "cv_wait t m c = Some (m', c')"
  shows "cv_resume t m' c' = None"
  using assms by (auto simp: cv_resume_def)

text \<open>\<^verbatim>\<open>notify_one\<close> wakes exactly one waiter when there is one, and is lost otherwise.\<close>

lemma cv_notify_one_card:
  assumes "finite c" and "cv_notify_one w c = Some c'"
  shows "card c' = card c - 1"
  using assms by auto

lemma cv_notify_one_enabled: "\<exists>w c'. cv_notify_one w c = Some c'"
  by (cases "c = {}") auto

lemma cv_wait_notify_resume:
  assumes "cv_wait t (Some t) c = Some (m, c1)" and "cv_notify_one t c1 = Some c2"
  shows "cv_resume t m c2 = Some (Some t)"
  using assms by auto

end
