(* ===== verification/Task_Queue.thy ===== *)
theory Task_Queue
  imports Pool_Prelude
begin

text \<open>
  Tasks and the task queue of \<^verbatim>\<open>class ThreadPool\<close>.

  A task is a \<^verbatim>\<open>std::function<void(size_t)>\<close>: a closure called with the index
  of the worker that runs it. The model keeps what the pool can observe of it:
  a label that tells tasks apart, and for each worker index whether the call
  returns or throws. The queue \<^verbatim>\<open>std::queue<...> tasks\<close> is a list, oldest task
  first, with the four operations the source uses. \<^verbatim>\<open>front\<close> and \<^verbatim>\<open>pop\<close> on
  an empty queue are undefined in C++ and return \<open>None\<close> here.
\<close>

section \<open>Tasks\<close>

datatype outcome = Returns | Throws

datatype 'a task = Task (label: 'a) (body: "size_t \<Rightarrow> outcome")

definition invoke :: "'a task \<Rightarrow> size_t \<Rightarrow> outcome" where
  "invoke f i = body f i"

definition well_behaved :: "'a task \<Rightarrow> bool" where
  "well_behaved f \<longleftrightarrow> (\<forall>i. invoke f i = Returns)"

section \<open>The queue\<close>

type_synonym 'a task_queue = "'a task list"

definition q_empty :: "'a task_queue \<Rightarrow> bool" where
  "q_empty q \<longleftrightarrow> q = []"

definition q_emplace :: "'a task \<Rightarrow> 'a task_queue \<Rightarrow> 'a task_queue" where
  "q_emplace f q = q @ [f]"

definition q_front :: "'a task_queue \<Rightarrow> 'a task option" where
  "q_front q = (case q of [] \<Rightarrow> None | f # _ \<Rightarrow> Some f)"

definition q_pop :: "'a task_queue \<Rightarrow> 'a task_queue option" where
  "q_pop q = (case q of [] \<Rightarrow> None | _ # q' \<Rightarrow> Some q')"

lemmas queue_defs [pool_ops] = q_empty_def q_emplace_def q_front_def q_pop_def

section \<open>Behaviour of the queue\<close>

lemma q_empty_Nil [simp]: "q_empty []"
  by (simp add: q_empty_def)

lemma q_empty_emplace [simp]: "\<not> q_empty (q_emplace f q)"
  by (simp add: q_empty_def q_emplace_def)

lemma q_front_Some [simp]: "q_front q = Some f \<longleftrightarrow> q \<noteq> [] \<and> f = hd q"
  by (cases q) (auto simp: q_front_def)

lemma q_front_None [simp]: "q_front q = None \<longleftrightarrow> q_empty q"
  by (cases q) (auto simp: q_front_def q_empty_def)

lemma q_pop_Some [simp]: "q_pop q = Some q' \<longleftrightarrow> q \<noteq> [] \<and> q' = tl q"
  by (cases q) (auto simp: q_pop_def)

lemma q_pop_None [simp]: "q_pop q = None \<longleftrightarrow> q_empty q"
  by (cases q) (auto simp: q_pop_def q_empty_def)

lemma length_q_emplace [simp]: "length (q_emplace f q) = Suc (length q)"
  by (simp add: q_emplace_def)

lemma mset_q_emplace [simp]: "mset (q_emplace f q) = add_mset f (mset q)"
  by (simp add: q_emplace_def)

text \<open>First in, first out: a task put into an empty queue is the next one taken.\<close>

lemma q_front_emplace_empty: "q_front (q_emplace f []) = Some f"
  by (simp add: q_emplace_def)

text \<open>Putting a task behind a non-empty queue changes neither its front nor the order
  of what is taken before the new task.\<close>

lemma q_front_emplace:
  assumes "\<not> q_empty q"
  shows "q_front (q_emplace f q) = q_front q"
  using assms by (cases q) (simp_all add: q_emplace_def q_front_def q_empty_def)

lemma q_pop_emplace:
  assumes "\<not> q_empty q"
  shows "q_pop (q_emplace f q) = map_option (q_emplace f) (q_pop q)"
  using assms by (cases q) (simp_all add: q_emplace_def q_pop_def q_empty_def)

end
