(* ===== verification/Pool_State.thy ===== *)
theory Pool_State
  imports Sync Task_Queue
begin

text \<open>
  The state of a running pool.

  \<^item> \<open>ThreadPool\<close> is the class of \<^verbatim>\<open>src/ThreadPool.h\<close>, one field per data
    member. An element of \<open>workers\<close> is a \<^verbatim>\<open>std::thread\<close> together with the state
    of the lambda it runs: its program counter \<open>wpc\<close>, the captured index \<open>wid\<close>
    and the local variable \<open>wtask\<close>.
  \<^item> \<open>system\<close> extends it by what lives outside the object: the argument and the
    program counter of the thread that constructs and destroys the pool
    (\<open>threads\<close>, \<open>opc\<close>), the activation records of the calls to \<^verbatim>\<open>enqueue\<close> in
    progress (\<open>frames\<close>), whether the process has left defined behaviour
    (\<open>fault\<close>), and four history variables that no operation reads: the tasks
    put into the queue (\<open>accepted\<close>), the calls that threw (\<open>rejected\<close>), the
    tasks taken out of the queue (\<open>dequeued\<close>) and the calls \<^verbatim>\<open>task(i)\<close> made
    (\<open>started\<close>), each in the order of the events.
  \<^item> A program counter names the source line the thread executes next.
\<close>

section \<open>Program counters\<close>

datatype wpc =
    W_Lock      \<comment> \<open>lines 42--47: next iteration, fresh \<^verbatim>\<open>task\<close>, lock the mutex\<close>
  | W_While     \<comment> \<open>line 48: test of the wait loop\<close>
  | W_WaitCall  \<comment> \<open>line 49: call \<^verbatim>\<open>condition.wait(lock)\<close>\<close>
  | W_Wait      \<comment> \<open>line 49: inside \<^verbatim>\<open>wait\<close>, mutex released\<close>
  | W_If        \<comment> \<open>line 51: test for exit\<close>
  | W_Front     \<comment> \<open>line 53: \<^verbatim>\<open>task = std::move(tasks.front())\<close>\<close>
  | W_Pop       \<comment> \<open>line 54: \<^verbatim>\<open>tasks.pop()\<close>\<close>
  | W_Dec       \<comment> \<open>line 55: \<^verbatim>\<open>task_queue_size--\<close>\<close>
  | W_Unlock    \<comment> \<open>line 56: end of the locked block\<close>
  | W_Call      \<comment> \<open>line 58: call \<^verbatim>\<open>task(i)\<close>\<close>
  | W_Running   \<comment> \<open>line 58: inside the task\<close>
  | W_Exited    \<comment> \<open>line 52: the thread function has returned\<close>

datatype epc =
    E_Lock      \<comment> \<open>line 68\<close>
  | E_Check     \<comment> \<open>lines 71--72\<close>
  | E_Emplace   \<comment> \<open>line 74\<close>
  | E_Inc       \<comment> \<open>line 75\<close>
  | E_Unlock    \<comment> \<open>line 76\<close>
  | E_Notify    \<comment> \<open>line 77\<close>

datatype opc =
    O_Ctor size_t  \<comment> \<open>line 38: loop of the constructor, with the value of \<^verbatim>\<open>i\<close>\<close>
  | O_Live         \<comment> \<open>the object is constructed\<close>
  | D_Lock         \<comment> \<open>line 84\<close>
  | D_Stop         \<comment> \<open>line 85\<close>
  | D_Unlock       \<comment> \<open>line 86\<close>
  | D_Notify       \<comment> \<open>line 87\<close>
  | D_Join nat     \<comment> \<open>lines 88--89: about to join the worker of this position\<close>
  | D_Done         \<comment> \<open>the destructor has returned\<close>

datatype fault =
    Terminate   \<comment> \<open>an exception left a thread function: \<^verbatim>\<open>std::terminate\<close>\<close>
  | Undefined   \<comment> \<open>an operation the C++ standard leaves undefined\<close>

section \<open>Records\<close>

record 'a worker =
  wpc :: wpc
  wid :: size_t
  wtask :: "'a task option"

record 'a frame =
  epc :: epc
  farg :: "'a task"

record 'a ThreadPool =
  workers :: "'a worker list"
  tasks :: "'a task_queue"
  task_queue_size :: size_t
  queue_mutex :: mutex
  condition :: condvar
  stop :: bool

record 'a system = "'a ThreadPool" +
  threads :: size_t
  opc :: opc
  frames :: "tid \<Rightarrow> 'a frame option"
  fault :: "fault option"
  accepted :: "'a task list"
  rejected :: "(tid \<times> 'a task) list"
  dequeued :: "'a task list"
  started :: "(size_t \<times> 'a task) list"

section \<open>Regions of the code\<close>

text \<open>The program counters between a lock and the matching unlock.\<close>

fun wpc_locked :: "wpc \<Rightarrow> bool" where
  "wpc_locked W_While = True"
| "wpc_locked W_WaitCall = True"
| "wpc_locked W_If = True"
| "wpc_locked W_Front = True"
| "wpc_locked W_Pop = True"
| "wpc_locked W_Dec = True"
| "wpc_locked W_Unlock = True"
| "wpc_locked _ = False"

fun epc_locked :: "epc \<Rightarrow> bool" where
  "epc_locked E_Check = True"
| "epc_locked E_Emplace = True"
| "epc_locked E_Inc = True"
| "epc_locked E_Unlock = True"
| "epc_locked _ = False"

fun opc_locked :: "opc \<Rightarrow> bool" where
  "opc_locked D_Stop = True"
| "opc_locked D_Unlock = True"
| "opc_locked _ = False"

text \<open>The object exists from the return of the constructor to the return of the
  destructor.\<close>

fun alive :: "opc \<Rightarrow> bool" where
  "alive (O_Ctor i) = False"
| "alive D_Done = False"
| "alive _ = True"

section \<open>Access to one worker and to one activation record\<close>

definition put_worker :: "nat \<Rightarrow> 'a worker \<Rightarrow> 'a system \<Rightarrow> 'a system" where
  "put_worker k w s = s\<lparr>workers := (workers s)[k := w]\<rparr>"

definition goto :: "nat \<Rightarrow> wpc \<Rightarrow> 'a system \<Rightarrow> 'a system" where
  "goto k pc s = put_worker k ((workers s ! k)\<lparr>wpc := pc\<rparr>) s"

definition put_frame :: "tid \<Rightarrow> 'a frame option \<Rightarrow> 'a system \<Rightarrow> 'a system" where
  "put_frame t fr s = s\<lparr>frames := (frames s)(t := fr)\<rparr>"

definition egoto :: "tid \<Rightarrow> epc \<Rightarrow> 'a system \<Rightarrow> 'a system" where
  "egoto t pc s = put_frame t (map_option (\<lambda>fr. fr\<lparr>epc := pc\<rparr>) (frames s t)) s"

definition raise_fault :: "fault \<Rightarrow> 'a system \<Rightarrow> 'a system" where
  "raise_fault x s = s\<lparr>fault := Some x\<rparr>"

lemmas access_defs [pool_ops] = put_worker_def goto_def put_frame_def egoto_def raise_fault_def

section \<open>The member initialisers of the constructor\<close>

definition ThreadPool_init :: "size_t \<Rightarrow> 'a system" where
  "ThreadPool_init n =
     \<lparr>workers = [], tasks = [], task_queue_size = 0, queue_mutex = None,
      condition = {}, stop = False,
      threads = n, opc = O_Ctor 0, frames = (\<lambda>_. None), fault = None,
      accepted = [], rejected = [], dequeued = [], started = []\<rparr>"

section \<open>Frame lemmas for the accessors\<close>

lemma put_worker_simps [simp]:
  "workers (put_worker k w s) = (workers s)[k := w]"
  "tasks (put_worker k w s) = tasks s"
  "task_queue_size (put_worker k w s) = task_queue_size s"
  "queue_mutex (put_worker k w s) = queue_mutex s"
  "condition (put_worker k w s) = condition s"
  "stop (put_worker k w s) = stop s"
  "threads (put_worker k w s) = threads s"
  "opc (put_worker k w s) = opc s"
  "frames (put_worker k w s) = frames s"
  "fault (put_worker k w s) = fault s"
  "accepted (put_worker k w s) = accepted s"
  "rejected (put_worker k w s) = rejected s"
  "dequeued (put_worker k w s) = dequeued s"
  "started (put_worker k w s) = started s"
  by (simp_all add: put_worker_def)

lemma goto_simps [simp]:
  "workers (goto k pc s) = (workers s)[k := (workers s ! k)\<lparr>wpc := pc\<rparr>]"
  "tasks (goto k pc s) = tasks s"
  "task_queue_size (goto k pc s) = task_queue_size s"
  "queue_mutex (goto k pc s) = queue_mutex s"
  "condition (goto k pc s) = condition s"
  "stop (goto k pc s) = stop s"
  "threads (goto k pc s) = threads s"
  "opc (goto k pc s) = opc s"
  "frames (goto k pc s) = frames s"
  "fault (goto k pc s) = fault s"
  "accepted (goto k pc s) = accepted s"
  "rejected (goto k pc s) = rejected s"
  "dequeued (goto k pc s) = dequeued s"
  "started (goto k pc s) = started s"
  by (simp_all add: goto_def)

lemma put_frame_simps [simp]:
  "workers (put_frame t fr s) = workers s"
  "tasks (put_frame t fr s) = tasks s"
  "task_queue_size (put_frame t fr s) = task_queue_size s"
  "queue_mutex (put_frame t fr s) = queue_mutex s"
  "condition (put_frame t fr s) = condition s"
  "stop (put_frame t fr s) = stop s"
  "threads (put_frame t fr s) = threads s"
  "opc (put_frame t fr s) = opc s"
  "frames (put_frame t fr s) = (frames s)(t := fr)"
  "fault (put_frame t fr s) = fault s"
  "accepted (put_frame t fr s) = accepted s"
  "rejected (put_frame t fr s) = rejected s"
  "dequeued (put_frame t fr s) = dequeued s"
  "started (put_frame t fr s) = started s"
  by (simp_all add: put_frame_def)

lemma egoto_simps [simp]:
  "workers (egoto t pc s) = workers s"
  "tasks (egoto t pc s) = tasks s"
  "task_queue_size (egoto t pc s) = task_queue_size s"
  "queue_mutex (egoto t pc s) = queue_mutex s"
  "condition (egoto t pc s) = condition s"
  "stop (egoto t pc s) = stop s"
  "threads (egoto t pc s) = threads s"
  "opc (egoto t pc s) = opc s"
  "frames (egoto t pc s) = (frames s)(t := map_option (\<lambda>fr. fr\<lparr>epc := pc\<rparr>) (frames s t))"
  "fault (egoto t pc s) = fault s"
  "accepted (egoto t pc s) = accepted s"
  "rejected (egoto t pc s) = rejected s"
  "dequeued (egoto t pc s) = dequeued s"
  "started (egoto t pc s) = started s"
  by (simp_all add: egoto_def)

lemma raise_fault_simps [simp]:
  "workers (raise_fault x s) = workers s"
  "tasks (raise_fault x s) = tasks s"
  "task_queue_size (raise_fault x s) = task_queue_size s"
  "queue_mutex (raise_fault x s) = queue_mutex s"
  "condition (raise_fault x s) = condition s"
  "stop (raise_fault x s) = stop s"
  "threads (raise_fault x s) = threads s"
  "opc (raise_fault x s) = opc s"
  "frames (raise_fault x s) = frames s"
  "fault (raise_fault x s) = Some x"
  "accepted (raise_fault x s) = accepted s"
  "rejected (raise_fault x s) = rejected s"
  "dequeued (raise_fault x s) = dequeued s"
  "started (raise_fault x s) = started s"
  by (simp_all add: raise_fault_def)

lemma ThreadPool_init_simps [simp]:
  "workers (ThreadPool_init n) = []"
  "tasks (ThreadPool_init n) = []"
  "task_queue_size (ThreadPool_init n) = 0"
  "queue_mutex (ThreadPool_init n) = None"
  "condition (ThreadPool_init n) = {}"
  "stop (ThreadPool_init n) = False"
  "threads (ThreadPool_init n) = n"
  "opc (ThreadPool_init n) = O_Ctor 0"
  "frames (ThreadPool_init n) = (\<lambda>_. None)"
  "fault (ThreadPool_init n) = None"
  "accepted (ThreadPool_init n) = []"
  "rejected (ThreadPool_init n) = []"
  "dequeued (ThreadPool_init n) = []"
  "started (ThreadPool_init n) = []"
  by (simp_all add: ThreadPool_init_def)

lemma wpc_goto [simp]:
  "k < length (workers s) \<Longrightarrow> wpc (workers (goto k pc s) ! j) = (if j = k then pc else wpc (workers s ! j))"
  by (simp add: nth_list_update)

lemma wid_goto [simp]: "wid (workers (goto k pc s) ! j) = wid (workers s ! j)"
  by (cases "k < length (workers s)") (simp_all add: nth_list_update_if list_update_beyond)

lemma wtask_goto [simp]: "wtask (workers (goto k pc s) ! j) = wtask (workers s ! j)"
  by (cases "k < length (workers s)") (simp_all add: nth_list_update_if list_update_beyond)

lemma length_workers_goto [simp]: "length (workers (goto k pc s)) = length (workers s)"
  by simp

end
