(* ===== verification/Worker.thy ===== *)
theory Worker
  imports Pool_State
begin

text \<open>
  The worker loop: the lambda of lines 40--60 of \<^verbatim>\<open>src/ThreadPool.h\<close>, one
  operation per statement. \<open>worker_step k\<close> runs the statement at the program
  counter of worker \<open>k\<close>. The result is \<open>None\<close> when the thread is blocked (the
  mutex is held, the thread sleeps in \<^verbatim>\<open>wait\<close>, the thread function has
  returned); it is a state with \<open>fault\<close> set when the statement has no defined
  behaviour at this point (\<^verbatim>\<open>front\<close> or \<^verbatim>\<open>pop\<close> on an empty queue, unlocking a
  mutex the thread does not own) or when the task throws.
\<close>

section \<open>The statements\<close>

definition w_lock :: "nat \<Rightarrow> 'a system \<Rightarrow> 'a system option" where
  "w_lock k s =
     (case mutex_lock (Worker k) (queue_mutex s) of
        None \<Rightarrow> None
      | Some m \<Rightarrow>
          Some (put_worker k ((workers s ! k)\<lparr>wpc := W_While, wtask := None\<rparr>)
                  (s\<lparr>queue_mutex := m\<rparr>)))"

definition w_while :: "nat \<Rightarrow> 'a system \<Rightarrow> 'a system option" where
  "w_while k s =
     Some (goto k (if \<not> stop s \<and> q_empty (tasks s) then W_WaitCall else W_If) s)"

definition w_wait :: "nat \<Rightarrow> 'a system \<Rightarrow> 'a system option" where
  "w_wait k s =
     (case cv_wait (Worker k) (queue_mutex s) (condition s) of
        None \<Rightarrow> Some (raise_fault Undefined s)
      | Some (m, c) \<Rightarrow> Some (goto k W_Wait (s\<lparr>queue_mutex := m, condition := c\<rparr>)))"

definition w_resume :: "nat \<Rightarrow> 'a system \<Rightarrow> 'a system option" where
  "w_resume k s =
     (case cv_resume (Worker k) (queue_mutex s) (condition s) of
        None \<Rightarrow> None
      | Some m \<Rightarrow> Some (goto k W_While (s\<lparr>queue_mutex := m\<rparr>)))"

definition w_if :: "nat \<Rightarrow> 'a system \<Rightarrow> 'a system option" where
  "w_if k s =
     (if stop s \<and> q_empty (tasks s)
      then (case mutex_unlock (Worker k) (queue_mutex s) of
              None \<Rightarrow> Some (raise_fault Undefined s)
            | Some m \<Rightarrow> Some (goto k W_Exited (s\<lparr>queue_mutex := m\<rparr>)))
      else Some (goto k W_Front s))"

definition w_front :: "nat \<Rightarrow> 'a system \<Rightarrow> 'a system option" where
  "w_front k s =
     (case q_front (tasks s) of
        None \<Rightarrow> Some (raise_fault Undefined s)
      | Some f \<Rightarrow> Some (put_worker k ((workers s ! k)\<lparr>wpc := W_Pop, wtask := Some f\<rparr>) s))"

definition w_pop :: "nat \<Rightarrow> 'a system \<Rightarrow> 'a system option" where
  "w_pop k s =
     (case q_pop (tasks s) of
        None \<Rightarrow> Some (raise_fault Undefined s)
      | Some q \<Rightarrow>
          Some (goto k W_Dec (s\<lparr>tasks := q, dequeued := dequeued s @ [hd (tasks s)]\<rparr>)))"

definition w_dec :: "nat \<Rightarrow> 'a system \<Rightarrow> 'a system option" where
  "w_dec k s = Some (goto k W_Unlock (s\<lparr>task_queue_size := task_queue_size s - 1\<rparr>))"

definition w_unlock :: "nat \<Rightarrow> 'a system \<Rightarrow> 'a system option" where
  "w_unlock k s =
     (case mutex_unlock (Worker k) (queue_mutex s) of
        None \<Rightarrow> Some (raise_fault Undefined s)
      | Some m \<Rightarrow> Some (goto k W_Call (s\<lparr>queue_mutex := m\<rparr>)))"

definition w_call :: "nat \<Rightarrow> 'a system \<Rightarrow> 'a system option" where
  "w_call k s =
     (case wtask (workers s ! k) of
        None \<Rightarrow> Some (raise_fault Terminate s)
      | Some f \<Rightarrow>
          Some (goto k W_Running (s\<lparr>started := started s @ [(wid (workers s ! k), f)]\<rparr>)))"

definition w_return :: "nat \<Rightarrow> 'a system \<Rightarrow> 'a system option" where
  "w_return k s =
     (if frames s (Worker k) \<noteq> None then None
      else case wtask (workers s ! k) of
        None \<Rightarrow> Some (raise_fault Terminate s)
      | Some f \<Rightarrow>
          (case invoke f (wid (workers s ! k)) of
             Returns \<Rightarrow> Some (goto k W_Lock s)
           | Throws \<Rightarrow> Some (raise_fault Terminate s)))"

lemmas worker_ops [pool_ops] =
  w_lock_def w_while_def w_wait_def w_resume_def w_if_def w_front_def w_pop_def
  w_dec_def w_unlock_def w_call_def w_return_def

section \<open>The loop\<close>

definition worker_step :: "nat \<Rightarrow> 'a system \<Rightarrow> 'a system option" where
  "worker_step k s =
     (if fault s \<noteq> None \<or> length (workers s) \<le> k then None
      else case wpc (workers s ! k) of
        W_Lock \<Rightarrow> w_lock k s
      | W_While \<Rightarrow> w_while k s
      | W_WaitCall \<Rightarrow> w_wait k s
      | W_Wait \<Rightarrow> w_resume k s
      | W_If \<Rightarrow> w_if k s
      | W_Front \<Rightarrow> w_front k s
      | W_Pop \<Rightarrow> w_pop k s
      | W_Dec \<Rightarrow> w_dec k s
      | W_Unlock \<Rightarrow> w_unlock k s
      | W_Call \<Rightarrow> w_call k s
      | W_Running \<Rightarrow> w_return k s
      | W_Exited \<Rightarrow> None)"

text \<open>A thread blocked in \<^verbatim>\<open>wait\<close> may be taken out of the wait set at any time:
  the spurious wake-up that the loop of line 48 is there for.\<close>

definition spurious_wakeup :: "nat \<Rightarrow> 'a system \<Rightarrow> 'a system option" where
  "spurious_wakeup k s =
     (if fault s \<noteq> None then None
      else case cv_spurious (Worker k) (condition s) of
        None \<Rightarrow> None
      | Some c \<Rightarrow> Some (s\<lparr>condition := c\<rparr>))"

lemmas worker_steps [pool_steps] = worker_step_def spurious_wakeup_def

section \<open>Case analysis of a step\<close>

text \<open>What each statement does when it is enabled: its guard, and the state after
  it. A statement that leaves defined behaviour changes nothing but \<open>fault\<close>.\<close>

lemma w_lockE:
  assumes "w_lock k s = Some s'"
  obtains "queue_mutex s = None"
    and "s' = put_worker k ((workers s ! k)\<lparr>wpc := W_While, wtask := None\<rparr>)
               (s\<lparr>queue_mutex := Some (Worker k)\<rparr>)"
  using assms by (auto simp: w_lock_def split: option.splits)

lemma w_whileE:
  assumes "w_while k s = Some s'"
  obtains (wait) "\<not> stop s" and "tasks s = []" and "s' = goto k W_WaitCall s"
  | (go) "stop s \<or> tasks s \<noteq> []" and "s' = goto k W_If s"
  using assms by (auto simp: w_while_def q_empty_def split: if_splits)

lemma w_waitE:
  assumes "w_wait k s = Some s'"
  obtains (wait) "queue_mutex s = Some (Worker k)"
    and "s' = goto k W_Wait (s\<lparr>queue_mutex := None, condition := insert (Worker k) (condition s)\<rparr>)"
  | (fault) "queue_mutex s \<noteq> Some (Worker k)" and "s' = raise_fault Undefined s"
  using assms by (auto simp: w_wait_def cv_wait_def split: option.splits if_splits)

lemma w_resumeE:
  assumes "w_resume k s = Some s'"
  obtains "Worker k \<notin> condition s" and "queue_mutex s = None"
    and "s' = goto k W_While (s\<lparr>queue_mutex := Some (Worker k)\<rparr>)"
  using assms by (auto simp: w_resume_def split: option.splits)

lemma w_ifE:
  assumes "w_if k s = Some s'"
  obtains (exit) "stop s" and "tasks s = []" and "queue_mutex s = Some (Worker k)"
    and "s' = goto k W_Exited (s\<lparr>queue_mutex := None\<rparr>)"
  | (go) "\<not> stop s \<or> tasks s \<noteq> []" and "s' = goto k W_Front s"
  | (fault) "queue_mutex s \<noteq> Some (Worker k)" and "s' = raise_fault Undefined s"
  using assms by (auto simp: w_if_def q_empty_def split: option.splits if_splits)

lemma w_frontE:
  assumes "w_front k s = Some s'"
  obtains (front) "tasks s \<noteq> []"
    and "s' = put_worker k ((workers s ! k)\<lparr>wpc := W_Pop, wtask := Some (hd (tasks s))\<rparr>) s"
  | (fault) "tasks s = []" and "s' = raise_fault Undefined s"
  using assms by (auto simp: w_front_def q_empty_def split: option.splits)

lemma w_popE:
  assumes "w_pop k s = Some s'"
  obtains (pop) "tasks s \<noteq> []"
    and "s' = goto k W_Dec (s\<lparr>tasks := tl (tasks s), dequeued := dequeued s @ [hd (tasks s)]\<rparr>)"
  | (fault) "tasks s = []" and "s' = raise_fault Undefined s"
  using assms by (auto simp: w_pop_def q_empty_def split: option.splits)

lemma w_decE:
  assumes "w_dec k s = Some s'"
  obtains "s' = goto k W_Unlock (s\<lparr>task_queue_size := task_queue_size s - 1\<rparr>)"
  using assms by (auto simp: w_dec_def)

lemma w_unlockE:
  assumes "w_unlock k s = Some s'"
  obtains (unlock) "queue_mutex s = Some (Worker k)"
    and "s' = goto k W_Call (s\<lparr>queue_mutex := None\<rparr>)"
  | (fault) "queue_mutex s \<noteq> Some (Worker k)" and "s' = raise_fault Undefined s"
  using assms by (auto simp: w_unlock_def split: option.splits)

lemma w_callE:
  assumes "w_call k s = Some s'"
  obtains (call) f where "wtask (workers s ! k) = Some f"
    and "s' = goto k W_Running (s\<lparr>started := started s @ [(wid (workers s ! k), f)]\<rparr>)"
  | (fault) "wtask (workers s ! k) = None" and "s' = raise_fault Terminate s"
  using assms by (auto simp: w_call_def split: option.splits)

lemma w_returnE:
  assumes "w_return k s = Some s'"
  obtains (return) f where "frames s (Worker k) = None" and "wtask (workers s ! k) = Some f"
    and "invoke f (wid (workers s ! k)) = Returns" and "s' = goto k W_Lock s"
  | (fault) "frames s (Worker k) = None"
    and "\<forall>f. wtask (workers s ! k) = Some f \<longrightarrow> invoke f (wid (workers s ! k)) = Throws"
    and "s' = raise_fault Terminate s"
  using assms by (auto simp: w_return_def split: option.splits if_splits outcome.splits)

lemma worker_step_guard:
  assumes "worker_step k s = Some s'"
  shows "fault s = None" and "k < length (workers s)"
  using assms by (auto simp: worker_step_def split: if_splits)

lemma worker_step_pcE:
  assumes "worker_step k s = Some s'"
  obtains "wpc (workers s ! k) = W_Lock" and "w_lock k s = Some s'"
  | "wpc (workers s ! k) = W_While" and "w_while k s = Some s'"
  | "wpc (workers s ! k) = W_WaitCall" and "w_wait k s = Some s'"
  | "wpc (workers s ! k) = W_Wait" and "w_resume k s = Some s'"
  | "wpc (workers s ! k) = W_If" and "w_if k s = Some s'"
  | "wpc (workers s ! k) = W_Front" and "w_front k s = Some s'"
  | "wpc (workers s ! k) = W_Pop" and "w_pop k s = Some s'"
  | "wpc (workers s ! k) = W_Dec" and "w_dec k s = Some s'"
  | "wpc (workers s ! k) = W_Unlock" and "w_unlock k s = Some s'"
  | "wpc (workers s ! k) = W_Call" and "w_call k s = Some s'"
  | "wpc (workers s ! k) = W_Running" and "w_return k s = Some s'"
  using assms by (cases "wpc (workers s ! k)") (auto simp: worker_step_def split: if_splits)

text \<open>The steps of a worker, one case per way a statement can go. \<open>Fault\<close> stands
  for every statement that leaves defined behaviour or lets an exception
  escape; \<open>worker_ub\<close> says when the former is the case.\<close>

definition worker_ub :: "nat \<Rightarrow> 'a system \<Rightarrow> bool" where
  "worker_ub k s \<longleftrightarrow>
     (case wpc (workers s ! k) of
        W_WaitCall \<Rightarrow> queue_mutex s \<noteq> Some (Worker k)
      | W_If \<Rightarrow> queue_mutex s \<noteq> Some (Worker k)
      | W_Unlock \<Rightarrow> queue_mutex s \<noteq> Some (Worker k)
      | W_Front \<Rightarrow> tasks s = []
      | W_Pop \<Rightarrow> tasks s = []
      | _ \<Rightarrow> False)"

definition worker_throws :: "nat \<Rightarrow> 'a system \<Rightarrow> bool" where
  "worker_throws k s \<longleftrightarrow>
     (case wpc (workers s ! k) of
        W_Call \<Rightarrow> wtask (workers s ! k) = None
      | W_Running \<Rightarrow>
          (case wtask (workers s ! k) of
             None \<Rightarrow> True
           | Some f \<Rightarrow> invoke f (wid (workers s ! k)) = Throws)
      | _ \<Rightarrow> False)"

lemma worker_step_cases [consumes 1, case_names Lock While_wait While_go Wait Resume Exit
    If_go Front Pop Dec Unlock Call Return Fault]:
  assumes step: "worker_step k s = Some s'"
    and Lock: "\<lbrakk>wpc (workers s ! k) = W_Lock; queue_mutex s = None;
        s' = put_worker k ((workers s ! k)\<lparr>wpc := W_While, wtask := None\<rparr>)
               (s\<lparr>queue_mutex := Some (Worker k)\<rparr>)\<rbrakk> \<Longrightarrow> P"
    and While_wait: "\<lbrakk>wpc (workers s ! k) = W_While; \<not> stop s; tasks s = [];
        s' = goto k W_WaitCall s\<rbrakk> \<Longrightarrow> P"
    and While_go: "\<lbrakk>wpc (workers s ! k) = W_While; stop s \<or> tasks s \<noteq> [];
        s' = goto k W_If s\<rbrakk> \<Longrightarrow> P"
    and Wait: "\<lbrakk>wpc (workers s ! k) = W_WaitCall; queue_mutex s = Some (Worker k);
        s' = goto k W_Wait
               (s\<lparr>queue_mutex := None, condition := insert (Worker k) (condition s)\<rparr>)\<rbrakk> \<Longrightarrow> P"
    and Resume: "\<lbrakk>wpc (workers s ! k) = W_Wait; Worker k \<notin> condition s; queue_mutex s = None;
        s' = goto k W_While (s\<lparr>queue_mutex := Some (Worker k)\<rparr>)\<rbrakk> \<Longrightarrow> P"
    and Exit: "\<lbrakk>wpc (workers s ! k) = W_If; stop s; tasks s = [];
        queue_mutex s = Some (Worker k);
        s' = goto k W_Exited (s\<lparr>queue_mutex := None\<rparr>)\<rbrakk> \<Longrightarrow> P"
    and If_go: "\<lbrakk>wpc (workers s ! k) = W_If; \<not> stop s \<or> tasks s \<noteq> [];
        s' = goto k W_Front s\<rbrakk> \<Longrightarrow> P"
    and Front: "\<lbrakk>wpc (workers s ! k) = W_Front; tasks s \<noteq> [];
        s' = put_worker k ((workers s ! k)\<lparr>wpc := W_Pop, wtask := Some (hd (tasks s))\<rparr>) s\<rbrakk>
        \<Longrightarrow> P"
    and Pop: "\<lbrakk>wpc (workers s ! k) = W_Pop; tasks s \<noteq> [];
        s' = goto k W_Dec
               (s\<lparr>tasks := tl (tasks s), dequeued := dequeued s @ [hd (tasks s)]\<rparr>)\<rbrakk> \<Longrightarrow> P"
    and Dec: "\<lbrakk>wpc (workers s ! k) = W_Dec;
        s' = goto k W_Unlock (s\<lparr>task_queue_size := task_queue_size s - 1\<rparr>)\<rbrakk> \<Longrightarrow> P"
    and Unlock: "\<lbrakk>wpc (workers s ! k) = W_Unlock; queue_mutex s = Some (Worker k);
        s' = goto k W_Call (s\<lparr>queue_mutex := None\<rparr>)\<rbrakk> \<Longrightarrow> P"
    and Call: "\<And>f. \<lbrakk>wpc (workers s ! k) = W_Call; wtask (workers s ! k) = Some f;
        s' = goto k W_Running (s\<lparr>started := started s @ [(wid (workers s ! k), f)]\<rparr>)\<rbrakk>
        \<Longrightarrow> P"
    and Return: "\<And>f. \<lbrakk>wpc (workers s ! k) = W_Running; frames s (Worker k) = None;
        wtask (workers s ! k) = Some f; invoke f (wid (workers s ! k)) = Returns;
        s' = goto k W_Lock s\<rbrakk> \<Longrightarrow> P"
    and Fault: "\<And>x. \<lbrakk>s' = raise_fault x s; x = Undefined \<longrightarrow> worker_ub k s;
        x = Terminate \<longrightarrow> worker_throws k s\<rbrakk> \<Longrightarrow> P"
  shows P
  using step
proof (cases rule: worker_step_pcE)
  case 1 then show ?thesis by (auto elim!: w_lockE intro: Lock)
next
  case 2 then show ?thesis by (auto elim!: w_whileE intro: While_wait While_go)
next
  case 3 then show ?thesis by (auto elim!: w_waitE intro: Wait Fault simp: worker_ub_def)
next
  case 4 then show ?thesis by (auto elim!: w_resumeE intro: Resume)
next
  case 5 then show ?thesis by (auto elim!: w_ifE intro: Exit If_go Fault simp: worker_ub_def)
next
  case 6 then show ?thesis by (auto elim!: w_frontE intro: Front Fault simp: worker_ub_def)
next
  case 7 then show ?thesis by (auto elim!: w_popE intro: Pop Fault simp: worker_ub_def)
next
  case 8 then show ?thesis by (auto elim!: w_decE intro: Dec)
next
  case 9 then show ?thesis by (auto elim!: w_unlockE intro: Unlock Fault simp: worker_ub_def)
next
  case 10 then show ?thesis by (auto elim!: w_callE intro: Call Fault simp: worker_throws_def)
next
  case 11 then show ?thesis
    by (elim w_returnE) (auto intro: Return Fault simp: worker_throws_def split: option.splits)
qed

section \<open>What a step leaves unchanged\<close>

lemma worker_step_length [simp]:
  "worker_step k s = Some s' \<Longrightarrow> length (workers s') = length (workers s)"
  by (cases rule: worker_step_cases) auto

lemma worker_step_frame:
  assumes "worker_step k s = Some s'"
  shows "stop s' = stop s" and "opc s' = opc s" and "threads s' = threads s"
    and "frames s' = frames s" and "accepted s' = accepted s"
    and "rejected s' = rejected s"
  using assms by (cases rule: worker_step_cases; simp)+

lemma worker_step_others:
  assumes "worker_step k s = Some s'" and "j \<noteq> k"
  shows "workers s' ! j = workers s ! j"
  using assms by (cases rule: worker_step_cases) auto

lemma worker_step_wid:
  assumes "worker_step k s = Some s'"
  shows "wid (workers s' ! j) = wid (workers s ! j)"
  using assms worker_step_guard(2) [OF assms]
  by (cases rule: worker_step_cases) (auto simp: nth_list_update)

lemma spurious_wakeup_frame:
  assumes "spurious_wakeup k s = Some s'"
  shows "s' = s\<lparr>condition := condition s - {Worker k}\<rparr>" and "Worker k \<in> condition s"
    and "fault s = None"
  using assms by (auto simp: spurious_wakeup_def split: if_splits option.splits)

end
