(* ===== verification/Enqueue.thy ===== *)
theory Enqueue
  imports Pool_State
begin

text \<open>
  The two public member functions besides the constructor and the destructor:
  \<^verbatim>\<open>enqueue\<close> (lines 65--78 of \<^verbatim>\<open>src/ThreadPool.h\<close>) and \<^verbatim>\<open>queue_size\<close> (line 18).

  A call of \<^verbatim>\<open>enqueue\<close> is an activation record in \<open>frames\<close>, owned by the
  calling thread: \<open>enqueue_call\<close> creates it, \<open>enqueue_step\<close> runs the statement
  at its program counter, and the two statements that leave the function
  (\<open>e_check\<close> when it throws, \<open>e_notify\<close>) remove it. The thrown
  \<^verbatim>\<open>std::runtime_error\<close> is the entry the call appends to \<open>rejected\<close>. A caller is
  the owner of the pool, a worker inside a task, or any other thread while the
  object exists.
\<close>

section \<open>Who may call\<close>

definition may_call :: "'a system \<Rightarrow> tid \<Rightarrow> bool" where
  "may_call s t =
     (case t of
        Owner \<Rightarrow> opc s = O_Live
      | Worker k \<Rightarrow> k < length (workers s) \<and> wpc (workers s ! k) = W_Running
      | Client c \<Rightarrow> alive (opc s))"

definition enqueue_call :: "tid \<Rightarrow> 'a task \<Rightarrow> 'a system \<Rightarrow> 'a system option" where
  "enqueue_call t f s =
     (if fault s = None \<and> frames s t = None \<and> may_call s t
      then Some (put_frame t (Some \<lparr>epc = E_Lock, farg = f\<rparr>) s)
      else None)"

section \<open>The statements\<close>

definition e_lock :: "tid \<Rightarrow> 'a system \<Rightarrow> 'a system option" where
  "e_lock t s =
     (case mutex_lock t (queue_mutex s) of
        None \<Rightarrow> None
      | Some m \<Rightarrow> Some (egoto t E_Check (s\<lparr>queue_mutex := m\<rparr>)))"

definition e_check :: "tid \<Rightarrow> 'a task \<Rightarrow> 'a system \<Rightarrow> 'a system option" where
  "e_check t f s =
     (if stop s
      then (case mutex_unlock t (queue_mutex s) of
              None \<Rightarrow> Some (raise_fault Undefined s)
            | Some m \<Rightarrow>
                Some (put_frame t None
                        (s\<lparr>queue_mutex := m, rejected := rejected s @ [(t, f)]\<rparr>)))
      else Some (egoto t E_Emplace s))"

definition e_emplace :: "tid \<Rightarrow> 'a task \<Rightarrow> 'a system \<Rightarrow> 'a system option" where
  "e_emplace t f s =
     Some (egoto t E_Inc (s\<lparr>tasks := q_emplace f (tasks s), accepted := accepted s @ [f]\<rparr>))"

definition e_inc :: "tid \<Rightarrow> 'a system \<Rightarrow> 'a system option" where
  "e_inc t s = Some (egoto t E_Unlock (s\<lparr>task_queue_size := task_queue_size s + 1\<rparr>))"

definition e_unlock :: "tid \<Rightarrow> 'a system \<Rightarrow> 'a system option" where
  "e_unlock t s =
     (case mutex_unlock t (queue_mutex s) of
        None \<Rightarrow> Some (raise_fault Undefined s)
      | Some m \<Rightarrow> Some (egoto t E_Notify (s\<lparr>queue_mutex := m\<rparr>)))"

definition e_notify :: "tid \<Rightarrow> nat \<Rightarrow> 'a system \<Rightarrow> 'a system option" where
  "e_notify t w s =
     (case cv_notify_one (Worker w) (condition s) of
        None \<Rightarrow> None
      | Some c \<Rightarrow> Some (put_frame t None (s\<lparr>condition := c\<rparr>)))"

lemmas enqueue_ops [pool_ops] =
  may_call_def e_lock_def e_check_def e_emplace_def e_inc_def e_unlock_def e_notify_def

section \<open>The function\<close>

text \<open>The second argument of \<open>enqueue_step\<close> is the waiter that \<^verbatim>\<open>notify_one\<close>
  wakes, which the C++ standard leaves to the implementation; the other
  statements ignore it.\<close>

definition enqueue_step :: "tid \<Rightarrow> nat \<Rightarrow> 'a system \<Rightarrow> 'a system option" where
  "enqueue_step t w s =
     (if fault s \<noteq> None \<or> opc s = D_Done then None
      else case frames s t of
        None \<Rightarrow> None
      | Some fr \<Rightarrow>
          (case epc fr of
             E_Lock \<Rightarrow> e_lock t s
           | E_Check \<Rightarrow> e_check t (farg fr) s
           | E_Emplace \<Rightarrow> e_emplace t (farg fr) s
           | E_Inc \<Rightarrow> e_inc t s
           | E_Unlock \<Rightarrow> e_unlock t s
           | E_Notify \<Rightarrow> e_notify t w s))"

definition queue_size :: "'a system \<Rightarrow> size_t" where
  "queue_size s = task_queue_size s"

lemmas enqueue_steps [pool_steps] = enqueue_call_def enqueue_step_def

section \<open>Case analysis of a step\<close>

lemma enqueue_step_guard:
  assumes "enqueue_step t w s = Some s'"
  shows "fault s = None" and "opc s \<noteq> D_Done" and "frames s t \<noteq> None"
  using assms by (auto simp: enqueue_step_def split: if_splits option.splits)

lemma enqueue_step_pcE:
  assumes "enqueue_step t w s = Some s'"
  obtains fr where "frames s t = Some fr" and "epc fr = E_Lock" and "e_lock t s = Some s'"
  | fr where "frames s t = Some fr" and "epc fr = E_Check" and "e_check t (farg fr) s = Some s'"
  | fr where "frames s t = Some fr" and "epc fr = E_Emplace"
      and "e_emplace t (farg fr) s = Some s'"
  | fr where "frames s t = Some fr" and "epc fr = E_Inc" and "e_inc t s = Some s'"
  | fr where "frames s t = Some fr" and "epc fr = E_Unlock" and "e_unlock t s = Some s'"
  | fr where "frames s t = Some fr" and "epc fr = E_Notify" and "e_notify t w s = Some s'"
proof -
  from assms obtain fr where fr: "frames s t = Some fr"
    by (auto simp: enqueue_step_def split: if_splits option.splits)
  with assms that show ?thesis
    by (cases "epc fr") (auto simp: enqueue_step_def split: if_splits)
qed

text \<open>The steps of a call, one case per way a statement can go. \<open>Reject\<close> is the
  throw of line 72; \<open>Notify_none\<close> is a \<^verbatim>\<open>notify_one\<close> with nobody waiting.\<close>

lemma enqueue_step_cases [consumes 1, case_names Lock Reject Check_go Emplace Inc Unlock
    Notify_none Notify_one Fault]:
  assumes step: "enqueue_step t w s = Some s'"
    and Lock: "\<And>fr. \<lbrakk>frames s t = Some fr; epc fr = E_Lock; queue_mutex s = None;
        s' = egoto t E_Check (s\<lparr>queue_mutex := Some t\<rparr>)\<rbrakk> \<Longrightarrow> P"
    and Reject: "\<And>fr. \<lbrakk>frames s t = Some fr; epc fr = E_Check; stop s;
        queue_mutex s = Some t;
        s' = put_frame t None
               (s\<lparr>queue_mutex := None, rejected := rejected s @ [(t, farg fr)]\<rparr>)\<rbrakk> \<Longrightarrow> P"
    and Check_go: "\<And>fr. \<lbrakk>frames s t = Some fr; epc fr = E_Check; \<not> stop s;
        s' = egoto t E_Emplace s\<rbrakk> \<Longrightarrow> P"
    and Emplace: "\<And>fr. \<lbrakk>frames s t = Some fr; epc fr = E_Emplace;
        s' = egoto t E_Inc
               (s\<lparr>tasks := tasks s @ [farg fr], accepted := accepted s @ [farg fr]\<rparr>)\<rbrakk> \<Longrightarrow> P"
    and Inc: "\<And>fr. \<lbrakk>frames s t = Some fr; epc fr = E_Inc;
        s' = egoto t E_Unlock (s\<lparr>task_queue_size := task_queue_size s + 1\<rparr>)\<rbrakk> \<Longrightarrow> P"
    and Unlock: "\<And>fr. \<lbrakk>frames s t = Some fr; epc fr = E_Unlock; queue_mutex s = Some t;
        s' = egoto t E_Notify (s\<lparr>queue_mutex := None\<rparr>)\<rbrakk> \<Longrightarrow> P"
    and Notify_none: "\<And>fr. \<lbrakk>frames s t = Some fr; epc fr = E_Notify; condition s = {};
        s' = put_frame t None s\<rbrakk> \<Longrightarrow> P"
    and Notify_one: "\<And>fr. \<lbrakk>frames s t = Some fr; epc fr = E_Notify; Worker w \<in> condition s;
        s' = put_frame t None (s\<lparr>condition := condition s - {Worker w}\<rparr>)\<rbrakk> \<Longrightarrow> P"
    and Fault: "\<And>fr. \<lbrakk>frames s t = Some fr; epc fr = E_Check \<or> epc fr = E_Unlock;
        queue_mutex s \<noteq> Some t; s' = raise_fault Undefined s\<rbrakk> \<Longrightarrow> P"
  shows P
  using step
proof (cases rule: enqueue_step_pcE)
  case (1 fr) then show ?thesis
    by (auto simp: e_lock_def split: option.splits intro: Lock)
next
  case (2 fr) then show ?thesis
    by (auto simp: e_check_def split: option.splits if_splits intro: Reject Check_go Fault)
next
  case (3 fr) then show ?thesis
    by (auto simp: e_emplace_def q_emplace_def intro: Emplace)
next
  case (4 fr) then show ?thesis
    by (auto simp: e_inc_def intro: Inc)
next
  case (5 fr) then show ?thesis
    by (auto simp: e_unlock_def split: option.splits intro: Unlock Fault)
next
  case (6 fr)
  then show ?thesis
  proof (cases "condition s = {}")
    case True
    with 6 show ?thesis
      by (intro Notify_none [of fr]) (auto simp: e_notify_def split: option.splits)
  next
    case False
    with 6 show ?thesis
      by (intro Notify_one [of fr]) (auto simp: e_notify_def split: option.splits)
  qed
qed

lemma enqueue_callE:
  assumes "enqueue_call t f s = Some s'"
  obtains "fault s = None" and "frames s t = None" and "may_call s t"
    and "s' = put_frame t (Some \<lparr>epc = E_Lock, farg = f\<rparr>) s"
  using assms by (auto simp: enqueue_call_def split: if_splits)

section \<open>What a step leaves unchanged\<close>

lemma enqueue_step_frame:
  assumes "enqueue_step t w s = Some s'"
  shows "workers s' = workers s" and "stop s' = stop s" and "opc s' = opc s"
    and "threads s' = threads s" and "started s' = started s" and "dequeued s' = dequeued s"
  using assms by (cases rule: enqueue_step_cases; simp)+

lemma enqueue_step_others:
  assumes "enqueue_step t w s = Some s'" and "u \<noteq> t"
  shows "frames s' u = frames s u"
  using assms by (cases rule: enqueue_step_cases) auto

section \<open>The two ways out of the function\<close>

text \<open>On a stopped pool the call throws under the lock it took: the queue, the
  counter and the history of accepted tasks are as before, the mutex is free
  again, and the call is over.\<close>

lemma e_check_stopped:
  assumes "stop s" and "queue_mutex s = Some t"
  shows "e_check t f s =
    Some (put_frame t None (s\<lparr>queue_mutex := None, rejected := rejected s @ [(t, f)]\<rparr>))"
  using assms by (simp add: e_check_def)

lemma e_check_running:
  assumes "\<not> stop s"
  shows "e_check t f s = Some (egoto t E_Emplace s)"
  using assms by (simp add: e_check_def)

end
