(* ===== verification/Lifecycle.thy ===== *)
theory Lifecycle
  imports Pool_State
begin

text \<open>
  The constructor (lines 34--62 of \<^verbatim>\<open>src/ThreadPool.h\<close>) and the destructor
  (lines 81--90), both run by the thread that owns the pool. After the member
  initialisers (\<open>ThreadPool_init\<close>) the constructor is a loop that starts one
  worker per iteration; a worker runs as soon as it is started, while the loop
  goes on. The destructor sets \<open>stop\<close> under the lock, wakes every waiter and
  joins the workers in the order of the vector; \<^verbatim>\<open>join\<close> blocks until the
  thread function of that worker has returned.
\<close>

section \<open>The constructor\<close>

definition new_worker :: "size_t \<Rightarrow> 'a worker" where
  "new_worker i = \<lparr>wpc = W_Lock, wid = i, wtask = None\<rparr>"

definition ctor_loop :: "size_t \<Rightarrow> 'a system \<Rightarrow> 'a system option" where
  "ctor_loop i s =
     (if i < threads s
      then Some (s\<lparr>workers := workers s @ [new_worker i], opc := O_Ctor (i + 1)\<rparr>)
      else Some (s\<lparr>opc := O_Live\<rparr>))"

section \<open>The destructor\<close>

definition d_enter :: "'a system \<Rightarrow> 'a system option" where
  "d_enter s = (if frames s Owner = None then Some (s\<lparr>opc := D_Lock\<rparr>) else None)"

definition d_lock :: "'a system \<Rightarrow> 'a system option" where
  "d_lock s =
     (case mutex_lock Owner (queue_mutex s) of
        None \<Rightarrow> None
      | Some m \<Rightarrow> Some (s\<lparr>queue_mutex := m, opc := D_Stop\<rparr>))"

definition d_stop :: "'a system \<Rightarrow> 'a system option" where
  "d_stop s = Some (s\<lparr>stop := True, opc := D_Unlock\<rparr>)"

definition d_unlock :: "'a system \<Rightarrow> 'a system option" where
  "d_unlock s =
     (case mutex_unlock Owner (queue_mutex s) of
        None \<Rightarrow> Some (raise_fault Undefined s)
      | Some m \<Rightarrow> Some (s\<lparr>queue_mutex := m, opc := D_Notify\<rparr>))"

definition d_notify :: "'a system \<Rightarrow> 'a system option" where
  "d_notify s = Some (s\<lparr>condition := cv_notify_all (condition s), opc := D_Join 0\<rparr>)"

definition d_join :: "nat \<Rightarrow> 'a system \<Rightarrow> 'a system option" where
  "d_join k s =
     (if k < length (workers s)
      then (if wpc (workers s ! k) = W_Exited then Some (s\<lparr>opc := D_Join (Suc k)\<rparr>) else None)
      else Some (s\<lparr>opc := D_Done\<rparr>))"

lemmas lifecycle_ops [pool_ops] =
  new_worker_def ctor_loop_def d_enter_def d_lock_def d_stop_def d_unlock_def
  d_notify_def d_join_def

section \<open>The owner thread\<close>

definition owner_step :: "'a system \<Rightarrow> 'a system option" where
  "owner_step s =
     (if fault s \<noteq> None then None
      else case opc s of
        O_Ctor i \<Rightarrow> ctor_loop i s
      | O_Live \<Rightarrow> d_enter s
      | D_Lock \<Rightarrow> d_lock s
      | D_Stop \<Rightarrow> d_stop s
      | D_Unlock \<Rightarrow> d_unlock s
      | D_Notify \<Rightarrow> d_notify s
      | D_Join k \<Rightarrow> d_join k s
      | D_Done \<Rightarrow> None)"

lemmas lifecycle_steps [pool_steps] = owner_step_def

section \<open>Case analysis of a step\<close>

lemma owner_step_guard:
  assumes "owner_step s = Some s'"
  shows "fault s = None" and "opc s \<noteq> D_Done"
  using assms by (auto simp: owner_step_def split: if_splits)

text \<open>The steps of the owner, one case per way a statement can go.\<close>

lemma owner_step_cases [consumes 1, case_names Spawn Ctor_done Enter Lock Stop Unlock
    Notify_all Join Join_done Fault]:
  assumes step: "owner_step s = Some s'"
    and Spawn: "\<And>i. \<lbrakk>opc s = O_Ctor i; i < threads s;
        s' = s\<lparr>workers := workers s @ [new_worker i], opc := O_Ctor (i + 1)\<rparr>\<rbrakk> \<Longrightarrow> P"
    and Ctor_done: "\<And>i. \<lbrakk>opc s = O_Ctor i; \<not> i < threads s; s' = s\<lparr>opc := O_Live\<rparr>\<rbrakk> \<Longrightarrow> P"
    and Enter: "\<lbrakk>opc s = O_Live; frames s Owner = None; s' = s\<lparr>opc := D_Lock\<rparr>\<rbrakk> \<Longrightarrow> P"
    and Lock: "\<lbrakk>opc s = D_Lock; queue_mutex s = None;
        s' = s\<lparr>queue_mutex := Some Owner, opc := D_Stop\<rparr>\<rbrakk> \<Longrightarrow> P"
    and Stop: "\<lbrakk>opc s = D_Stop; s' = s\<lparr>stop := True, opc := D_Unlock\<rparr>\<rbrakk> \<Longrightarrow> P"
    and Unlock: "\<lbrakk>opc s = D_Unlock; queue_mutex s = Some Owner;
        s' = s\<lparr>queue_mutex := None, opc := D_Notify\<rparr>\<rbrakk> \<Longrightarrow> P"
    and Notify_all: "\<lbrakk>opc s = D_Notify; s' = s\<lparr>condition := {}, opc := D_Join 0\<rparr>\<rbrakk> \<Longrightarrow> P"
    and Join: "\<And>k. \<lbrakk>opc s = D_Join k; k < length (workers s);
        wpc (workers s ! k) = W_Exited; s' = s\<lparr>opc := D_Join (Suc k)\<rparr>\<rbrakk> \<Longrightarrow> P"
    and Join_done: "\<And>k. \<lbrakk>opc s = D_Join k; \<not> k < length (workers s);
        s' = s\<lparr>opc := D_Done\<rparr>\<rbrakk> \<Longrightarrow> P"
    and Fault: "\<lbrakk>opc s = D_Unlock; queue_mutex s \<noteq> Some Owner;
        s' = raise_fault Undefined s\<rbrakk> \<Longrightarrow> P"
  shows P
proof (cases "opc s")
  case (O_Ctor i)
  with step show ?thesis
    by (auto simp: owner_step_def ctor_loop_def split: if_splits intro: Spawn Ctor_done)
next
  case O_Live
  with step show ?thesis
    by (auto simp: owner_step_def d_enter_def split: if_splits intro: Enter)
next
  case D_Lock
  with step show ?thesis
    by (auto simp: owner_step_def d_lock_def split: if_splits option.splits intro: Lock)
next
  case D_Stop
  with step show ?thesis
    by (auto simp: owner_step_def d_stop_def split: if_splits intro: Stop)
next
  case D_Unlock
  with step show ?thesis
    by (auto simp: owner_step_def d_unlock_def split: if_splits option.splits
        intro: Unlock Fault)
next
  case D_Notify
  with step show ?thesis
    by (auto simp: owner_step_def d_notify_def split: if_splits intro: Notify_all)
next
  case (D_Join k)
  with step show ?thesis
    by (auto simp: owner_step_def d_join_def split: if_splits intro: Join Join_done)
next
  case D_Done
  with step show ?thesis
    by (simp add: owner_step_def split: if_splits)
qed

section \<open>What a step leaves unchanged\<close>

lemma owner_step_frame:
  assumes "owner_step s = Some s'"
  shows "tasks s' = tasks s" and "task_queue_size s' = task_queue_size s"
    and "frames s' = frames s" and "threads s' = threads s"
    and "accepted s' = accepted s" and "rejected s' = rejected s"
    and "dequeued s' = dequeued s" and "started s' = started s"
  using assms by (cases rule: owner_step_cases; simp)+

lemma owner_step_workers:
  assumes "owner_step s = Some s'" and "k < length (workers s)"
  shows "workers s' ! k = workers s ! k"
  using assms by (cases rule: owner_step_cases) (auto simp: nth_append)

section \<open>The whole constructor\<close>

text \<open>The constructor on its own, with no worker scheduled in between: the loop
  from index \<open>i\<close> on. The recursion ends because the distance to \<open>threads\<close>
  shrinks; \<open>i + 1\<close> cannot wrap around below \<open>threads\<close>.\<close>

function ctor_run :: "size_t \<Rightarrow> 'a system \<Rightarrow> 'a system" where
  "ctor_run i s =
     (if i < threads s
      then ctor_run (i + 1) (s\<lparr>workers := workers s @ [new_worker i], opc := O_Ctor (i + 1)\<rparr>)
      else s\<lparr>opc := O_Live\<rparr>)"
  by pat_completeness auto
termination
proof (relation "measure (\<lambda>(i, s). unat (threads s) - unat i)")
  show "wf (measure (\<lambda>(i, s :: 'a system). unat (threads s) - unat i))"
    by simp
next
  fix i :: size_t and s :: "'a system"
  assume "i < threads s"
  then have "unat (i + 1) = Suc (unat i)" and "unat i < unat (threads s)"
    by (simp_all add: size_t_less_Suc word_less_nat_alt)
  then show "((i + 1, s\<lparr>workers := workers s @ [new_worker i], opc := O_Ctor (i + 1)\<rparr>), (i, s))
      \<in> measure (\<lambda>(i, s). unat (threads s) - unat i)"
    by simp
qed

declare ctor_run.simps [simp del]

definition ThreadPool_ctor :: "size_t \<Rightarrow> 'a system" where
  "ThreadPool_ctor n = ctor_run 0 (ThreadPool_init n)"

text \<open>The loop in closed form: it appends one worker per index from \<open>i\<close> up to
  \<open>threads\<close>, in this order, each with its index as identity, and changes nothing
  else.\<close>

lemma ctor_run_eq:
  "ctor_run i s =
     s\<lparr>workers := workers s @ map (\<lambda>k. new_worker (of_nat k)) [unat i..<unat (threads s)],
       opc := O_Live\<rparr>"
proof (induction i s rule: ctor_run.induct)
  case (1 i s)
  show ?case
  proof (cases "i < threads s")
    case True
    with 1 show ?thesis
      by (subst ctor_run.simps) (simp add: upt_unat_Suc)
  next
    case False
    then have "[unat i..<unat (threads s)] = []"
      by (simp add: word_less_nat_alt)
    with False show ?thesis
      by (subst ctor_run.simps) simp
  qed
qed

text \<open>
  C30. The constructor, run on its own for \<open>n\<close> threads, ends its loop, and it
  returns a pool of exactly \<open>unat n\<close> workers, the worker at position \<open>k\<close> with
  identity \<open>k\<close> and at the top of its loop, with the queue empty, the counter 0
  and the stop flag clear.
\<close>

theorem ctor_workers:
  "ThreadPool_ctor n =
     (ThreadPool_init n)\<lparr>workers := map (\<lambda>k. new_worker (of_nat k)) [0..<unat n],
       opc := O_Live\<rparr>"
  by (simp add: ThreadPool_ctor_def ctor_run_eq)

end
