(* ===== verification/Pool_System.thy ===== *)
theory Pool_System
  imports Worker Enqueue Lifecycle
begin

text \<open>
  The threads together. One step of the system is one statement of one thread:
  of the owner, of a worker, of a caller inside \<^verbatim>\<open>enqueue\<close>, the start of a call
  to \<^verbatim>\<open>enqueue\<close>, or a spurious wake-up. Which thread moves is not determined,
  so the steps are a relation, \<open>step\<close>; \<open>fire\<close> is the same step as a function
  of an event that names the thread, and \<open>exec\<close> runs a schedule, a list of
  events. \<open>reachable\<close> are the states a pool can be in, from the member
  initialisers of the constructor on, for any number of threads asked for.
\<close>

section \<open>Events and schedules\<close>

datatype 'a event =
    Ev_Owner
  | Ev_Worker nat
  | Ev_Spurious nat
  | Ev_Call tid "'a task"
  | Ev_Enqueue tid nat

fun fire :: "'a event \<Rightarrow> 'a system \<Rightarrow> 'a system option" where
  "fire Ev_Owner s = owner_step s"
| "fire (Ev_Worker k) s = worker_step k s"
| "fire (Ev_Spurious k) s = spurious_wakeup k s"
| "fire (Ev_Call t f) s = enqueue_call t f s"
| "fire (Ev_Enqueue t w) s = enqueue_step t w s"

fun exec :: "'a event list \<Rightarrow> 'a system \<Rightarrow> 'a system option" where
  "exec [] s = Some s"
| "exec (e # es) s = (case fire e s of None \<Rightarrow> None | Some s' \<Rightarrow> exec es s')"

section \<open>The step relation and the reachable states\<close>

inductive step :: "'a system \<Rightarrow> 'a system \<Rightarrow> bool" where
  owner: "owner_step s = Some s' \<Longrightarrow> step s s'"
| worker: "worker_step k s = Some s' \<Longrightarrow> step s s'"
| spurious: "spurious_wakeup k s = Some s' \<Longrightarrow> step s s'"
| call: "enqueue_call t f s = Some s' \<Longrightarrow> step s s'"
| enqueue: "enqueue_step t w s = Some s' \<Longrightarrow> step s s'"

inductive reachable :: "'a system \<Rightarrow> bool" where
  init: "reachable (ThreadPool_init n)"
| step: "reachable s \<Longrightarrow> step s s' \<Longrightarrow> reachable s'"

inductive_cases stepE: "step s s'"

section \<open>Steps, events and schedules agree\<close>

lemma step_iff_fire: "step s s' \<longleftrightarrow> (\<exists>e. fire e s = Some s')"
proof
  assume "step s s'"
  then show "\<exists>e. fire e s = Some s'"
  proof cases
    case owner
    then have "fire Ev_Owner s = Some s'" by simp
    then show ?thesis ..
  next
    case (worker k)
    then have "fire (Ev_Worker k) s = Some s'" by simp
    then show ?thesis ..
  next
    case (spurious k)
    then have "fire (Ev_Spurious k) s = Some s'" by simp
    then show ?thesis ..
  next
    case (call t f)
    then have "fire (Ev_Call t f) s = Some s'" by simp
    then show ?thesis ..
  next
    case (enqueue t w)
    then have "fire (Ev_Enqueue t w) s = Some s'" by simp
    then show ?thesis ..
  qed
next
  assume "\<exists>e. fire e s = Some s'"
  then obtain e where "fire e s = Some s'" ..
  then show "step s s'"
    by (cases e) (auto intro: step.intros)
qed

lemma fire_step: "fire e s = Some s' \<Longrightarrow> step s s'"
  by (auto simp: step_iff_fire)

lemma exec_append: "exec (es @ es') s = Option.bind (exec es s) (exec es')"
  by (induction es arbitrary: s) (auto split: option.splits)

text \<open>What every statement of a schedule keeps, the schedule keeps.\<close>

lemma exec_invariant:
  assumes "exec es s = Some s'" and "list_all Q es" and "P s"
    and keep: "\<And>e s s'. fire e s = Some s' \<Longrightarrow> Q e \<Longrightarrow> P s \<Longrightarrow> P s'"
  shows "P s'"
  using assms(1-3)
proof (induction es arbitrary: s)
  case Nil
  then show ?case by simp
next
  case (Cons e es)
  from Cons.prems(1) obtain s1 where e: "fire e s = Some s1" and es: "exec es s1 = Some s'"
    by (auto split: option.splits)
  with Cons.prems(2,3) show ?case
    by (intro Cons.IH [OF es]) (simp_all add: keep [OF e])
qed

lemma exec_reachable:
  assumes "reachable s" and "exec es s = Some s'"
  shows "reachable s'"
  using assms(2) _ assms(1)
  by (rule exec_invariant [where Q = "\<lambda>_. True"])
     (simp_all add: list_all_iff reachable.step fire_step)

lemma reachable_exec:
  assumes "reachable s"
  shows "\<exists>n es. exec es (ThreadPool_init n) = Some s"
  using assms
proof (induction rule: reachable.induct)
  case (init n)
  have "exec [] (ThreadPool_init n) = Some (ThreadPool_init n)" by simp
  then show ?case by blast
next
  case (step s s')
  then obtain n es e where "exec es (ThreadPool_init n) = Some s" and "fire e s = Some s'"
    by (auto simp: step_iff_fire)
  then have "exec (es @ [e]) (ThreadPool_init n) = Some s'"
    by (simp add: exec_append)
  then show ?case by blast
qed

text \<open>A run from the initial state of the constructor is reachable: the form in
  which concrete schedules are used.\<close>

lemma exec_init_reachable: "exec es (ThreadPool_init n) = Some s \<Longrightarrow> reachable s"
  by (rule exec_reachable [OF reachable.init])

section \<open>Invariants\<close>

text \<open>The proof rule for every invariant of the development: it holds after the
  member initialisers, and each of the five kinds of step keeps it. A step may
  assume that its source state is reachable.\<close>

lemma invariantI [consumes 1, case_names init owner worker spurious call enqueue]:
  assumes "reachable s"
    and "\<And>n. I (ThreadPool_init n)"
    and "\<And>s s'. \<lbrakk>reachable s; I s; owner_step s = Some s'\<rbrakk> \<Longrightarrow> I s'"
    and "\<And>s s' k. \<lbrakk>reachable s; I s; worker_step k s = Some s'\<rbrakk> \<Longrightarrow> I s'"
    and "\<And>s s' k. \<lbrakk>reachable s; I s; spurious_wakeup k s = Some s'\<rbrakk> \<Longrightarrow> I s'"
    and "\<And>s s' t f. \<lbrakk>reachable s; I s; enqueue_call t f s = Some s'\<rbrakk> \<Longrightarrow> I s'"
    and "\<And>s s' t w. \<lbrakk>reachable s; I s; enqueue_step t w s = Some s'\<rbrakk> \<Longrightarrow> I s'"
  shows "I s"
  using assms(1)
proof (induction rule: reachable.induct)
  case (init n)
  show ?case by (rule assms(2))
next
  case (step s s')
  from step.hyps(2) show ?case
    by cases (blast intro: assms(3-7) step.hyps(1) step.IH)+
qed

section \<open>The constructor on its own\<close>

text \<open>Running the loop of the constructor to its end is a run of the system in
  which only the owner moves.\<close>

lemma ctor_run_reachable:
  assumes "reachable s" and "opc s = O_Ctor i" and "fault s = None"
  shows "reachable (ctor_run i s)"
  using assms
proof (induction i s rule: ctor_run.induct)
  case (1 i s)
  let ?s' = "s\<lparr>workers := workers s @ [new_worker i], opc := O_Ctor (i + 1)\<rparr>"
  show ?case
  proof (cases "i < threads s")
    case True
    with 1 have "owner_step s = Some ?s'"
      by (simp add: owner_step_def ctor_loop_def)
    with 1(2) have "reachable ?s'"
      by (blast intro: reachable.step step.owner)
    with True 1 show ?thesis
      by (subst ctor_run.simps) simp
  next
    case False
    with 1 have "owner_step s = Some (s\<lparr>opc := O_Live\<rparr>)"
      by (simp add: owner_step_def ctor_loop_def)
    with 1(2) have "reachable (s\<lparr>opc := O_Live\<rparr>)"
      by (blast intro: reachable.step step.owner)
    with False show ?thesis
      by (subst ctor_run.simps) simp
  qed
qed

section \<open>What never changes\<close>

lemma step_threads: "step s s' \<Longrightarrow> threads s' = threads s"
  by (auto elim!: stepE enqueue_callE dest!: spurious_wakeup_frame(1)
      simp: owner_step_frame worker_step_frame enqueue_step_frame)

lemma exec_threads: "exec es s = Some s' \<Longrightarrow> threads s' = threads s"
  by (rule exec_invariant [where Q = "\<lambda>_. True" and P = "\<lambda>x. threads x = threads s"])
     (simp_all add: list_all_iff step_threads [OF fire_step])

lemma step_fault_free: "step s s' \<Longrightarrow> fault s = None"
  by (auto elim!: stepE enqueue_callE
      dest: owner_step_guard worker_step_guard enqueue_step_guard spurious_wakeup_frame(3))

end
