(* ===== verification/Pool_Invariants.thy ===== *)
theory Pool_Invariants
  imports Pool_System
begin

text \<open>
  The invariants of the reachable states, each with the lemmas that the five
  kinds of step keep it, and the facts about reachable states that follow.
\<close>

section \<open>Callers of enqueue\<close>

text \<open>A call by the owner is made between construction and destruction; a call
  by a worker is made from inside a task.\<close>

definition frame_inv :: "'a system \<Rightarrow> bool" where
  "frame_inv s \<longleftrightarrow>
     (frames s Owner \<noteq> None \<longrightarrow> opc s = O_Live) \<and>
     (\<forall>k. frames s (Worker k) \<noteq> None \<longrightarrow>
        k < length (workers s) \<and> wpc (workers s ! k) = W_Running)"

lemma frame_inv_init: "frame_inv (ThreadPool_init n)"
  by (simp add: frame_inv_def)

lemma frame_inv_owner:
  assumes "owner_step s = Some s'" and "frame_inv s"
  shows "frame_inv s'"
  using assms
  by (cases rule: owner_step_cases) (auto simp: frame_inv_def nth_append less_Suc_eq)

lemma frame_inv_worker:
  assumes "worker_step k s = Some s'" and "frame_inv s"
  shows "frame_inv s'"
  using assms worker_step_guard(2) [OF assms(1)]
  by (cases rule: worker_step_cases) (auto simp: frame_inv_def nth_list_update)

lemma frame_inv_spurious:
  assumes "spurious_wakeup k s = Some s'" and "frame_inv s"
  shows "frame_inv s'"
  using assms by (auto dest!: spurious_wakeup_frame(1) simp: frame_inv_def)

lemma frame_inv_call:
  assumes "enqueue_call t f s = Some s'" and "frame_inv s"
  shows "frame_inv s'"
  using assms by (auto elim!: enqueue_callE simp: frame_inv_def may_call_def split: if_splits)

lemma frame_inv_enqueue:
  assumes "enqueue_step t w s = Some s'" and "frame_inv s"
  shows "frame_inv s'"
  using assms by (cases rule: enqueue_step_cases) (auto simp: frame_inv_def)

lemma reachable_frame_inv: "reachable s \<Longrightarrow> frame_inv s"
  by (induction rule: invariantI)
     (blast intro: frame_inv_init frame_inv_owner frame_inv_worker frame_inv_spurious
        frame_inv_call frame_inv_enqueue)+

section \<open>The mutex\<close>

text \<open>\<open>holds s t\<close>: the program counter of thread \<open>t\<close> is between a lock and the
  matching unlock. The mutex belongs to the thread for which this is the case,
  and to nobody if there is none.\<close>

definition holds :: "'a system \<Rightarrow> tid \<Rightarrow> bool" where
  "holds s t \<longleftrightarrow>
     (case frames s t of Some fr \<Rightarrow> epc_locked (epc fr) | None \<Rightarrow> False) \<or>
     (case t of
        Owner \<Rightarrow> opc_locked (opc s)
      | Worker k \<Rightarrow> k < length (workers s) \<and> wpc_locked (wpc (workers s ! k))
      | Client c \<Rightarrow> False)"

definition lock_inv :: "'a system \<Rightarrow> bool" where
  "lock_inv s \<longleftrightarrow> (\<forall>t. holds s t \<longleftrightarrow> queue_mutex s = Some t)"

lemma lock_inv_init: "lock_inv (ThreadPool_init n)"
  by (auto simp: lock_inv_def holds_def split: tid.splits)

text \<open>A step of one thread changes neither whether another thread is in a locked
  region nor whether another thread owns the mutex.\<close>

lemma holds_worker_other:
  assumes "worker_step k s = Some s'" and "t \<noteq> Worker k"
  shows "holds s' t = holds s t" and "queue_mutex s' = Some t \<longleftrightarrow> queue_mutex s = Some t"
  using assms worker_step_guard(2) [OF assms(1)]
  by (cases rule: worker_step_cases; auto simp: holds_def nth_list_update split: tid.splits)+

lemma holds_enqueue_other:
  assumes "enqueue_step u w s = Some s'" and "t \<noteq> u"
  shows "holds s' t = holds s t" and "queue_mutex s' = Some t \<longleftrightarrow> queue_mutex s = Some t"
  using assms
  by (cases rule: enqueue_step_cases; auto simp: holds_def split: tid.splits)+

lemma holds_owner_other:
  assumes "owner_step s = Some s'" and "t \<noteq> Owner"
  shows "holds s' t = holds s t" and "queue_mutex s' = Some t \<longleftrightarrow> queue_mutex s = Some t"
  using assms
  by (cases rule: owner_step_cases;
      auto simp: holds_def nth_append new_worker_def less_Suc_eq split: tid.splits)+

text \<open>The thread that steps owns the mutex after the step exactly if it is in a
  locked region then.\<close>

lemma holds_worker_self:
  assumes "worker_step k s = Some s'" and "frame_inv s"
    and "holds s (Worker k) \<longleftrightarrow> queue_mutex s = Some (Worker k)"
  shows "holds s' (Worker k) \<longleftrightarrow> queue_mutex s' = Some (Worker k)"
  using assms worker_step_guard(2) [OF assms(1)]
  by (cases rule: worker_step_cases) (auto simp: holds_def frame_inv_def split: option.splits)

lemma holds_enqueue_self:
  assumes "enqueue_step t w s = Some s'" and "frame_inv s"
    and "holds s t \<longleftrightarrow> queue_mutex s = Some t"
  shows "holds s' t \<longleftrightarrow> queue_mutex s' = Some t"
  using assms
  by (cases rule: enqueue_step_cases)
     (auto simp: holds_def frame_inv_def split: option.splits tid.splits)

lemma holds_owner_self:
  assumes "owner_step s = Some s'" and "frame_inv s"
    and "holds s Owner \<longleftrightarrow> queue_mutex s = Some Owner"
  shows "holds s' Owner \<longleftrightarrow> queue_mutex s' = Some Owner"
  using assms
  by (cases rule: owner_step_cases) (auto simp: holds_def frame_inv_def split: option.splits)

lemma lock_inv_worker:
  assumes "worker_step k s = Some s'" and "lock_inv s" and "frame_inv s"
  shows "lock_inv s'"
  unfolding lock_inv_def
proof
  fix t
  from assms show "holds s' t \<longleftrightarrow> queue_mutex s' = Some t"
    by (cases "t = Worker k")
       (simp_all add: lock_inv_def holds_worker_self holds_worker_other)
qed

lemma lock_inv_enqueue:
  assumes "enqueue_step u w s = Some s'" and "lock_inv s" and "frame_inv s"
  shows "lock_inv s'"
  unfolding lock_inv_def
proof
  fix t
  from assms show "holds s' t \<longleftrightarrow> queue_mutex s' = Some t"
    by (cases "t = u")
       (simp_all add: lock_inv_def holds_enqueue_self holds_enqueue_other)
qed

lemma lock_inv_owner:
  assumes "owner_step s = Some s'" and "lock_inv s" and "frame_inv s"
  shows "lock_inv s'"
  unfolding lock_inv_def
proof
  fix t
  from assms show "holds s' t \<longleftrightarrow> queue_mutex s' = Some t"
    by (cases "t = Owner")
       (simp_all add: lock_inv_def holds_owner_self holds_owner_other)
qed

lemma holds_condition_update [simp]: "holds (s\<lparr>condition := c\<rparr>) t = holds s t"
  by (cases t) (simp_all add: holds_def)

lemma holds_call:
  assumes "enqueue_call u f s = Some s'"
  shows "holds s' t = holds s t" and "queue_mutex s' = queue_mutex s"
proof -
  from assms have s': "s' = put_frame u (Some \<lparr>epc = E_Lock, farg = f\<rparr>) s"
    and u: "frames s u = None"
    by (auto elim: enqueue_callE)
  from u show "holds s' t = holds s t"
    unfolding s' by (cases t) (auto simp: holds_def)
  show "queue_mutex s' = queue_mutex s"
    unfolding s' by simp
qed

lemma lock_inv_spurious:
  assumes "spurious_wakeup k s = Some s'" and "lock_inv s"
  shows "lock_inv s'"
  using assms by (auto dest!: spurious_wakeup_frame(1) simp: lock_inv_def)

lemma lock_inv_call:
  assumes "enqueue_call t f s = Some s'" and "lock_inv s"
  shows "lock_inv s'"
  using assms by (simp add: lock_inv_def holds_call)

lemma reachable_lock_inv: "reachable s \<Longrightarrow> lock_inv s"
  by (induction rule: invariantI)
     (blast intro: lock_inv_init lock_inv_owner lock_inv_worker lock_inv_spurious
        lock_inv_call lock_inv_enqueue reachable_frame_inv)+

section \<open>Consequences of the lock invariant\<close>

lemma lock_inv_worker_pc:
  assumes "lock_inv s" and "k < length (workers s)" and "wpc_locked (wpc (workers s ! k))"
  shows "queue_mutex s = Some (Worker k)"
  using assms by (auto simp: lock_inv_def holds_def dest!: spec [of _ "Worker k"])

lemma lock_inv_frame_pc:
  assumes "lock_inv s" and "frames s t = Some fr" and "epc_locked (epc fr)"
  shows "queue_mutex s = Some t"
  using assms by (auto simp: lock_inv_def holds_def dest!: spec [of _ t])

lemma lock_inv_owner_pc:
  assumes "lock_inv s" and "opc_locked (opc s)"
  shows "queue_mutex s = Some Owner"
  using assms by (auto simp: lock_inv_def holds_def dest!: spec [of _ Owner])

lemma lock_inv_exclusive:
  assumes "lock_inv s" and "holds s t" and "holds s u"
  shows "t = u"
  using assms by (auto simp: lock_inv_def)

lemma lock_inv_free:
  assumes "lock_inv s" and "queue_mutex s = None"
  shows "\<not> holds s t"
  using assms by (auto simp: lock_inv_def)

text \<open>The queue, the counter and the stop flag are written under the lock only: a
  step of a thread that does not own the mutex leaves them as they are.\<close>

lemma worker_step_protected:
  assumes "worker_step k s = Some s'" and "lock_inv s" and "queue_mutex s \<noteq> Some (Worker k)"
  shows "tasks s' = tasks s" and "task_queue_size s' = task_queue_size s"
    and "stop s' = stop s"
  using assms worker_step_guard(2) [OF assms(1)] lock_inv_worker_pc [of s k]
  by (cases rule: worker_step_cases; simp)+

lemma enqueue_step_protected:
  assumes "enqueue_step t w s = Some s'" and "lock_inv s" and "queue_mutex s \<noteq> Some t"
  shows "tasks s' = tasks s" and "task_queue_size s' = task_queue_size s"
    and "stop s' = stop s"
  using assms
  by (cases rule: enqueue_step_cases; auto dest: lock_inv_frame_pc)+

lemma owner_step_protected:
  assumes "owner_step s = Some s'" and "lock_inv s" and "queue_mutex s \<noteq> Some Owner"
  shows "tasks s' = tasks s" and "task_queue_size s' = task_queue_size s"
    and "stop s' = stop s"
  using assms
  by (cases rule: owner_step_cases; auto dest: lock_inv_owner_pc)+

end
