(* ===== verification/Queue_Invariants.thy ===== *)
theory Queue_Invariants
  imports Pool_Invariants
begin

text \<open>
  What a thread knows while it holds the lock, and the counter of the queue.

  \<^item> \<open>worker_inv\<close>: at every program counter of the worker loop, what the tests
    of lines 48 and 51 have established about \<open>stop\<close> and \<open>tasks\<close>, and the task
    held in the local variable.
  \<^item> \<open>call_inv\<close>: a call to \<^verbatim>\<open>enqueue\<close> past its test of line 71 runs on a pool
    that is not stopped.
  \<^item> \<open>count_inv\<close>: \<open>task_queue_size\<close> is the length of the queue, as a 64-bit
    word, but for the one statement between the change of the queue and the
    change of the counter; \<open>owed\<close> is that difference.
\<close>

section \<open>The worker under the lock\<close>

fun pc_inv :: "wpc \<Rightarrow> bool \<Rightarrow> 'a task list \<Rightarrow> 'a task option \<Rightarrow> bool" where
  "pc_inv W_WaitCall st q tk \<longleftrightarrow> \<not> st \<and> q = []"
| "pc_inv W_If st q tk \<longleftrightarrow> st \<or> q \<noteq> []"
| "pc_inv W_Front st q tk \<longleftrightarrow> q \<noteq> []"
| "pc_inv W_Pop st q tk \<longleftrightarrow> q \<noteq> [] \<and> tk = Some (hd q)"
| "pc_inv W_Dec st q tk \<longleftrightarrow> tk \<noteq> None"
| "pc_inv W_Unlock st q tk \<longleftrightarrow> tk \<noteq> None"
| "pc_inv W_Call st q tk \<longleftrightarrow> tk \<noteq> None"
| "pc_inv W_Running st q tk \<longleftrightarrow> tk \<noteq> None"
| "pc_inv W_Lock st q tk \<longleftrightarrow> True"
| "pc_inv W_While st q tk \<longleftrightarrow> True"
| "pc_inv W_Wait st q tk \<longleftrightarrow> True"
| "pc_inv W_Exited st q tk \<longleftrightarrow> True"

definition worker_ok :: "'a system \<Rightarrow> 'a worker \<Rightarrow> bool" where
  "worker_ok s w \<longleftrightarrow> pc_inv (wpc w) (stop s) (tasks s) (wtask w)"

definition worker_inv :: "'a system \<Rightarrow> bool" where
  "worker_inv s \<longleftrightarrow> (\<forall>k < length (workers s). worker_ok s (workers s ! k))"

text \<open>Outside the locked region the invariant of a program counter does not
  depend on the queue or the stop flag.\<close>

lemma pc_inv_protected:
  assumes "pc_inv pc st q tk" and "wpc_locked pc \<Longrightarrow> st' = st \<and> q' = q"
  shows "pc_inv pc st' q' tk"
  using assms by (cases pc) auto

lemma worker_ok_protected:
  assumes "worker_ok s w"
    and "wpc_locked (wpc w) \<Longrightarrow> stop s' = stop s \<and> tasks s' = tasks s"
  shows "worker_ok s' w"
  using assms unfolding worker_ok_def by (rule pc_inv_protected)

lemma worker_inv_init: "worker_inv (ThreadPool_init n)"
  by (simp add: worker_inv_def)

lemma worker_ok_self:
  assumes "worker_step k s = Some s'" and "worker_ok s (workers s ! k)"
  shows "worker_ok s' (workers s' ! k)"
  using assms worker_step_guard(2) [OF assms(1)]
  by (cases rule: worker_step_cases) (auto simp: worker_ok_def)

lemma worker_inv_worker:
  assumes step: "worker_step k s = Some s'" and inv: "worker_inv s" and lock: "lock_inv s"
  shows "worker_inv s'"
  unfolding worker_inv_def
proof (intro allI impI)
  fix j
  assume "j < length (workers s')"
  then have j: "j < length (workers s)"
    using step by simp
  with inv have ok: "worker_ok s (workers s ! j)"
    by (simp add: worker_inv_def)
  show "worker_ok s' (workers s' ! j)"
  proof (cases "j = k")
    case True
    with step ok show ?thesis by (simp add: worker_ok_self)
  next
    case False
    have "stop s' = stop s \<and> tasks s' = tasks s" if "wpc_locked (wpc (workers s ! j))"
    proof -
      from lock j that have "queue_mutex s = Some (Worker j)"
        by (rule lock_inv_worker_pc)
      with False have "queue_mutex s \<noteq> Some (Worker k)" by simp
      with step lock show ?thesis by (simp add: worker_step_protected)
    qed
    with ok have "worker_ok s' (workers s ! j)"
      by (rule worker_ok_protected)
    with step False show ?thesis by (simp add: worker_step_others)
  qed
qed

lemma worker_inv_enqueue:
  assumes step: "enqueue_step t w s = Some s'" and inv: "worker_inv s" and lock: "lock_inv s"
    and fr: "frame_inv s"
  shows "worker_inv s'"
  unfolding worker_inv_def
proof (intro allI impI)
  fix j
  assume "j < length (workers s')"
  with step have j: "j < length (workers s)"
    by (simp add: enqueue_step_frame)
  with inv have ok: "worker_ok s (workers s ! j)"
    by (simp add: worker_inv_def)
  have "stop s' = stop s \<and> tasks s' = tasks s" if locked: "wpc_locked (wpc (workers s ! j))"
  proof -
    from lock j locked have m: "queue_mutex s = Some (Worker j)"
      by (rule lock_inv_worker_pc)
    have "t \<noteq> Worker j"
    proof
      assume "t = Worker j"
      with step fr have "wpc (workers s ! j) = W_Running"
        by (auto simp: frame_inv_def dest: enqueue_step_guard(3))
      with locked show False by simp
    qed
    with m have "queue_mutex s \<noteq> Some t" by simp
    with step lock show ?thesis by (simp add: enqueue_step_protected)
  qed
  with ok have "worker_ok s' (workers s ! j)"
    by (rule worker_ok_protected)
  with step show "worker_ok s' (workers s' ! j)"
    by (simp add: enqueue_step_frame)
qed

lemma worker_inv_owner:
  assumes step: "owner_step s = Some s'" and inv: "worker_inv s" and lock: "lock_inv s"
  shows "worker_inv s'"
  unfolding worker_inv_def
proof (intro allI impI)
  fix j
  assume j': "j < length (workers s')"
  show "worker_ok s' (workers s' ! j)"
  proof (cases "j < length (workers s)")
    case True
    with inv have ok: "worker_ok s (workers s ! j)"
      by (simp add: worker_inv_def)
    have "stop s' = stop s \<and> tasks s' = tasks s" if "wpc_locked (wpc (workers s ! j))"
    proof -
      from lock True that have "queue_mutex s = Some (Worker j)"
        by (rule lock_inv_worker_pc)
      then have "queue_mutex s \<noteq> Some Owner" by simp
      with step lock show ?thesis by (simp add: owner_step_protected)
    qed
    with ok have "worker_ok s' (workers s ! j)"
      by (rule worker_ok_protected)
    with step True show ?thesis by (simp add: owner_step_workers)
  next
    case False
    with step j' show ?thesis
      by (cases rule: owner_step_cases)
         (auto simp: worker_ok_def new_worker_def nth_append less_Suc_eq)
  qed
qed

lemma worker_inv_spurious:
  assumes "spurious_wakeup k s = Some s'" and "worker_inv s"
  shows "worker_inv s'"
  using assms by (auto dest!: spurious_wakeup_frame(1) simp: worker_inv_def worker_ok_def)

lemma worker_inv_call:
  assumes "enqueue_call t f s = Some s'" and "worker_inv s"
  shows "worker_inv s'"
  using assms by (auto elim!: enqueue_callE simp: worker_inv_def worker_ok_def)

lemma reachable_worker_inv: "reachable s \<Longrightarrow> worker_inv s"
  by (induction rule: invariantI)
     (blast intro: worker_inv_init worker_inv_owner worker_inv_worker worker_inv_spurious
        worker_inv_call worker_inv_enqueue reachable_frame_inv reachable_lock_inv)+

lemma worker_invD:
  assumes "worker_inv s" and "k < length (workers s)"
  shows "pc_inv (wpc (workers s ! k)) (stop s) (tasks s) (wtask (workers s ! k))"
  using assms by (simp add: worker_inv_def worker_ok_def)

section \<open>A call past its test\<close>

fun epc_accepting :: "epc \<Rightarrow> bool" where
  "epc_accepting E_Emplace = True"
| "epc_accepting E_Inc = True"
| "epc_accepting E_Unlock = True"
| "epc_accepting _ = False"

definition call_inv :: "'a system \<Rightarrow> bool" where
  "call_inv s \<longleftrightarrow> (\<forall>t fr. frames s t = Some fr \<longrightarrow> epc_accepting (epc fr) \<longrightarrow> \<not> stop s)"

lemma epc_accepting_locked: "epc_accepting pc \<Longrightarrow> epc_locked pc"
  by (cases pc) simp_all

lemma call_inv_init: "call_inv (ThreadPool_init n)"
  by (simp add: call_inv_def)

lemma call_inv_worker:
  assumes "worker_step k s = Some s'" and "call_inv s"
  shows "call_inv s'"
  using assms by (simp add: call_inv_def worker_step_frame)

lemma call_inv_spurious:
  assumes "spurious_wakeup k s = Some s'" and "call_inv s"
  shows "call_inv s'"
  using assms by (auto dest!: spurious_wakeup_frame(1) simp: call_inv_def)

lemma call_inv_call:
  assumes "enqueue_call t f s = Some s'" and "call_inv s"
  shows "call_inv s'"
  using assms by (auto elim!: enqueue_callE simp: call_inv_def split: if_splits)

lemma call_inv_enqueue:
  assumes "enqueue_step t w s = Some s'" and "call_inv s"
  shows "call_inv s'"
  using assms
  by (cases rule: enqueue_step_cases) (auto simp: call_inv_def split: if_splits)

lemma call_inv_owner:
  assumes step: "owner_step s = Some s'" and inv: "call_inv s" and lock: "lock_inv s"
    and fr: "frame_inv s"
  shows "call_inv s'"
proof (cases "stop s' = stop s")
  case True
  with step inv show ?thesis
    by (simp add: call_inv_def owner_step_frame)
next
  case False
  with step lock have owner: "queue_mutex s = Some Owner" and "opc s \<noteq> O_Live"
    by (auto dest: owner_step_protected(3) elim: owner_step_cases)
  with fr have "frames s Owner = None"
    by (auto simp: frame_inv_def)
  with owner lock have "\<not> epc_accepting (epc fr')" if "frames s t = Some fr'" for t fr'
    using that lock_inv_frame_pc [of s t fr'] epc_accepting_locked [of "epc fr'"] by auto
  with step show ?thesis
    by (auto simp: call_inv_def owner_step_frame)
qed

lemma reachable_call_inv: "reachable s \<Longrightarrow> call_inv s"
  by (induction rule: invariantI)
     (blast intro: call_inv_init call_inv_owner call_inv_worker call_inv_spurious
        call_inv_call call_inv_enqueue reachable_frame_inv reachable_lock_inv)+

lemma call_invD:
  assumes "call_inv s" and "frames s t = Some fr" and "epc_accepting (epc fr)"
  shows "\<not> stop s"
  using assms by (auto simp: call_inv_def)

section \<open>The counter\<close>

text \<open>\<open>owed s\<close> is what the owner of the mutex still has to do to the counter: a
  worker that has popped a task has yet to decrement it, a caller that has
  emplaced a task has yet to increment it.\<close>

definition wowed :: "'a system \<Rightarrow> tid \<Rightarrow> size_t" where
  "wowed s t =
     (case t of
        Worker k \<Rightarrow> if k < length (workers s) \<and> wpc (workers s ! k) = W_Dec then 1 else 0
      | _ \<Rightarrow> 0)"

definition eowed :: "'a system \<Rightarrow> tid \<Rightarrow> size_t" where
  "eowed s t = (case frames s t of Some fr \<Rightarrow> if epc fr = E_Inc then 1 else 0 | None \<Rightarrow> 0)"

definition owed :: "'a system \<Rightarrow> size_t" where
  "owed s = (case queue_mutex s of None \<Rightarrow> 0 | Some t \<Rightarrow> wowed s t - eowed s t)"

definition count_inv :: "'a system \<Rightarrow> bool" where
  "count_inv s \<longleftrightarrow> task_queue_size s = of_nat (length (tasks s)) + owed s"

lemma count_inv_init: "count_inv (ThreadPool_init n)"
  by (simp add: count_inv_def owed_def)

text \<open>A step of a thread that does not own the mutex changes nothing the counter
  invariant reads.\<close>

lemma owed_worker_other:
  assumes "worker_step k s = Some s'" and "t \<noteq> Worker k"
  shows "wowed s' t = wowed s t" and "eowed s' t = eowed s t"
  using assms worker_step_guard(2) [OF assms(1)]
  by (cases t; simp add: wowed_def eowed_def worker_step_others worker_step_frame)+

lemma owed_enqueue_other:
  assumes "enqueue_step u w s = Some s'" and "t \<noteq> u"
  shows "wowed s' t = wowed s t" and "eowed s' t = eowed s t"
  using assms
  by (cases t; simp add: wowed_def eowed_def enqueue_step_others enqueue_step_frame)+

lemma owed_owner_other:
  assumes "owner_step s = Some s'" and "t \<noteq> Owner"
  shows "wowed s' t = wowed s t" and "eowed s' t = eowed s t"
  using assms
  by (cases rule: owner_step_cases;
      cases t; auto simp: wowed_def eowed_def nth_append new_worker_def less_Suc_eq)+

lemma count_inv_worker_other:
  assumes "worker_step k s = Some s'" and "count_inv s" and "lock_inv s"
    and "queue_mutex s = Some t" and "t \<noteq> Worker k"
  shows "count_inv s'"
  using assms holds_worker_other(2) [of k s s' t]
  by (simp add: count_inv_def owed_def owed_worker_other worker_step_protected)

lemma count_inv_enqueue_other:
  assumes "enqueue_step u w s = Some s'" and "count_inv s" and "lock_inv s"
    and "queue_mutex s = Some t" and "t \<noteq> u"
  shows "count_inv s'"
  using assms holds_enqueue_other(2) [of u w s s' t]
  by (simp add: count_inv_def owed_def owed_enqueue_other enqueue_step_protected)

lemma count_inv_owner_other:
  assumes "owner_step s = Some s'" and "count_inv s" and "lock_inv s"
    and "queue_mutex s = Some t" and "t \<noteq> Owner"
  shows "count_inv s'"
  using assms holds_owner_other(2) [of s s' t]
  by (simp add: count_inv_def owed_def owed_owner_other owner_step_protected)

text \<open>The thread that steps owns the mutex, or the mutex is free.\<close>

lemma holds_Worker_iff:
  "holds s (Worker k) \<longleftrightarrow>
     (\<exists>fr. frames s (Worker k) = Some fr \<and> epc_locked (epc fr)) \<or>
     (k < length (workers s) \<and> wpc_locked (wpc (workers s ! k)))"
  by (auto simp: holds_def split: option.splits)

lemma holds_Owner_iff:
  "holds s Owner \<longleftrightarrow>
     (\<exists>fr. frames s Owner = Some fr \<and> epc_locked (epc fr)) \<or> opc_locked (opc s)"
  by (auto simp: holds_def split: option.splits)

lemma holds_Client_iff:
  "holds s (Client c) \<longleftrightarrow> (\<exists>fr. frames s (Client c) = Some fr \<and> epc_locked (epc fr))"
  by (auto simp: holds_def split: option.splits)

lemma count_inv_worker_self:
  assumes step: "worker_step k s = Some s'" and inv: "count_inv s" and lock: "lock_inv s"
    and fr: "frame_inv s" and wk: "worker_inv s"
    and m: "queue_mutex s = None \<or> queue_mutex s = Some (Worker k)"
  shows "count_inv s'"
proof -
  from step have k: "k < length (workers s)"
    by (rule worker_step_guard)
  from lock have h: "holds s (Worker k) \<longleftrightarrow> queue_mutex s = Some (Worker k)"
    by (simp add: lock_inv_def)
  from fr have f: "frames s (Worker k) \<noteq> None \<longrightarrow> wpc (workers s ! k) = W_Running"
    by (simp add: frame_inv_def)
  from wk k have p: "pc_inv (wpc (workers s ! k)) (stop s) (tasks s) (wtask (workers s ! k))"
    by (rule worker_invD)
  from step inv m k h f p show ?thesis
    by (cases rule: worker_step_cases)
       (auto simp: count_inv_def owed_def wowed_def eowed_def holds_Worker_iff
          of_nat_length_pred split: option.splits)
qed

lemma count_inv_worker:
  assumes "worker_step k s = Some s'" and "count_inv s" and "lock_inv s"
    and "frame_inv s" and "worker_inv s"
  shows "count_inv s'"
proof (cases "queue_mutex s = None \<or> queue_mutex s = Some (Worker k)")
  case True
  with assms show ?thesis by (rule count_inv_worker_self)
next
  case False
  then obtain t where "queue_mutex s = Some t" and "t \<noteq> Worker k" by auto
  with assms(1-3) show ?thesis by (rule count_inv_worker_other)
qed

lemma count_inv_enqueue_self:
  assumes step: "enqueue_step t w s = Some s'" and inv: "count_inv s" and lock: "lock_inv s"
    and fr: "frame_inv s"
    and m: "queue_mutex s = None \<or> queue_mutex s = Some t"
  shows "count_inv s'"
proof -
  from lock have h: "holds s t \<longleftrightarrow> queue_mutex s = Some t"
    by (simp add: lock_inv_def)
  from fr have f: "\<And>k. t = Worker k \<Longrightarrow> frames s t \<noteq> None \<Longrightarrow>
      k < length (workers s) \<and> wpc (workers s ! k) = W_Running"
    by (simp add: frame_inv_def)
  from step inv m h f show ?thesis
    by (cases rule: enqueue_step_cases; cases t)
       (auto simp: count_inv_def owed_def wowed_def eowed_def holds_def split: option.splits)
qed

lemma count_inv_enqueue:
  assumes "enqueue_step t w s = Some s'" and "count_inv s" and "lock_inv s" and "frame_inv s"
  shows "count_inv s'"
proof (cases "queue_mutex s = None \<or> queue_mutex s = Some t")
  case True
  with assms show ?thesis by (rule count_inv_enqueue_self)
next
  case False
  then obtain u where "queue_mutex s = Some u" and "u \<noteq> t" by auto
  with assms(1-3) show ?thesis by (rule count_inv_enqueue_other)
qed

lemma count_inv_owner_self:
  assumes step: "owner_step s = Some s'" and inv: "count_inv s" and lock: "lock_inv s"
    and fr: "frame_inv s"
    and m: "queue_mutex s = None \<or> queue_mutex s = Some Owner"
  shows "count_inv s'"
proof -
  from lock have h: "holds s Owner \<longleftrightarrow> queue_mutex s = Some Owner"
    by (simp add: lock_inv_def)
  from fr have f: "frames s Owner \<noteq> None \<longrightarrow> opc s = O_Live"
    by (simp add: frame_inv_def)
  from step inv m h f show ?thesis
    by (cases rule: owner_step_cases)
       (auto simp: count_inv_def owed_def wowed_def eowed_def holds_Owner_iff
          split: option.splits)
qed

lemma count_inv_owner:
  assumes "owner_step s = Some s'" and "count_inv s" and "lock_inv s" and "frame_inv s"
  shows "count_inv s'"
proof (cases "queue_mutex s = None \<or> queue_mutex s = Some Owner")
  case True
  with assms show ?thesis by (rule count_inv_owner_self)
next
  case False
  then obtain u where "queue_mutex s = Some u" and "u \<noteq> Owner" by auto
  with assms(1-3) show ?thesis by (rule count_inv_owner_other)
qed

lemma owed_condition_update [simp]: "owed (s\<lparr>condition := c\<rparr>) = owed s"
  by (auto simp: owed_def wowed_def eowed_def split: option.splits tid.splits)

lemma count_inv_spurious:
  assumes "spurious_wakeup k s = Some s'" and "count_inv s"
  shows "count_inv s'"
  using assms by (auto dest!: spurious_wakeup_frame(1) simp: count_inv_def)

lemma count_inv_call:
  assumes call: "enqueue_call t f s = Some s'" and inv: "count_inv s" and lock: "lock_inv s"
  shows "count_inv s'"
proof -
  from call have s': "s' = put_frame t (Some \<lparr>epc = E_Lock, farg = f\<rparr>) s"
    and t: "frames s t = None"
    by (auto elim: enqueue_callE)
  have "eowed s' u = eowed s u" for u
    using t by (simp add: s' eowed_def)
  moreover have "wowed s' u = wowed s u" for u
    by (cases u) (simp_all add: s' wowed_def)
  moreover have "queue_mutex s' = queue_mutex s"
    by (simp add: s')
  ultimately have "owed s' = owed s"
    by (simp add: owed_def split: option.splits)
  with inv show ?thesis
    by (simp add: count_inv_def s')
qed

lemma reachable_count_inv: "reachable s \<Longrightarrow> count_inv s"
  by (induction rule: invariantI)
     (blast intro: count_inv_init count_inv_owner count_inv_worker count_inv_spurious
        count_inv_call count_inv_enqueue reachable_frame_inv reachable_lock_inv
        reachable_worker_inv)+

text \<open>The difference is one task at most, and none when the mutex is free.\<close>

lemma owed_cases: "owed s = 0 \<or> owed s = 1 \<or> owed s = - 1"
  by (auto simp: owed_def wowed_def eowed_def split: option.splits tid.splits)

lemma owed_free: "queue_mutex s = None \<Longrightarrow> owed s = 0"
  by (simp add: owed_def)

end
