(* ===== verification/History_Invariants.thy ===== *)
theory History_Invariants
  imports Queue_Invariants
begin

text \<open>
  The invariants that relate the history variables to the state of the pool.

  \<^item> \<open>fifo_inv\<close>: the queue is what has been accepted and not yet taken out, in
    the order of acceptance.
  \<^item> \<open>acct_inv\<close>: every task taken out of the queue has been called, or is
    carried by a worker on its way from \<^verbatim>\<open>pop\<close> to the call.
  \<^item> \<open>ctor_inv\<close>: the vector of workers has one worker per index below the loop
    variable of the constructor, each with its index as its identity.
  \<^item> \<open>started_inv\<close>: a call \<^verbatim>\<open>task(i)\<close> was made by worker \<open>i\<close>, and a worker
    inside a task has logged that call.
\<close>

section \<open>First in, first out\<close>

definition fifo_inv :: "'a system \<Rightarrow> bool" where
  "fifo_inv s \<longleftrightarrow> accepted s = dequeued s @ tasks s"

lemma fifo_inv_init: "fifo_inv (ThreadPool_init n)"
  by (simp add: fifo_inv_def)

lemma fifo_inv_owner:
  assumes "owner_step s = Some s'" and "fifo_inv s"
  shows "fifo_inv s'"
  using assms by (simp add: fifo_inv_def owner_step_frame)

lemma fifo_inv_worker:
  assumes "worker_step k s = Some s'" and "fifo_inv s"
  shows "fifo_inv s'"
  using assms by (cases rule: worker_step_cases) (auto simp: fifo_inv_def)

lemma fifo_inv_spurious:
  assumes "spurious_wakeup k s = Some s'" and "fifo_inv s"
  shows "fifo_inv s'"
  using assms by (auto dest!: spurious_wakeup_frame(1) simp: fifo_inv_def)

lemma fifo_inv_call:
  assumes "enqueue_call t f s = Some s'" and "fifo_inv s"
  shows "fifo_inv s'"
  using assms by (auto elim!: enqueue_callE simp: fifo_inv_def)

lemma fifo_inv_enqueue:
  assumes "enqueue_step t w s = Some s'" and "fifo_inv s"
  shows "fifo_inv s'"
  using assms by (cases rule: enqueue_step_cases) (auto simp: fifo_inv_def)

lemma reachable_fifo_inv: "reachable s \<Longrightarrow> fifo_inv s"
  by (induction rule: invariantI)
     (blast intro: fifo_inv_init fifo_inv_owner fifo_inv_worker fifo_inv_spurious
        fifo_inv_call fifo_inv_enqueue)+

section \<open>Tasks on their way from the queue to the call\<close>

fun carrying :: "wpc \<Rightarrow> bool" where
  "carrying W_Dec = True"
| "carrying W_Unlock = True"
| "carrying W_Call = True"
| "carrying _ = False"

definition carried :: "'a worker \<Rightarrow> 'a task multiset" where
  "carried w =
     (if carrying (wpc w) then (case wtask w of Some f \<Rightarrow> {#f#} | None \<Rightarrow> {#}) else {#})"

definition inflight :: "'a system \<Rightarrow> 'a task multiset" where
  "inflight s = sum_list (map carried (workers s))"

definition acct_inv :: "'a system \<Rightarrow> bool" where
  "acct_inv s \<longleftrightarrow> mset (dequeued s) = mset (map snd (started s)) + inflight s"

lemma acct_inv_init: "acct_inv (ThreadPool_init n)"
  by (simp add: acct_inv_def inflight_def)

lemma inflight_simps [simp]:
  "inflight (s\<lparr>queue_mutex := m\<rparr>) = inflight s"
  "inflight (s\<lparr>condition := c\<rparr>) = inflight s"
  "inflight (s\<lparr>stop := b\<rparr>) = inflight s"
  "inflight (s\<lparr>opc := pc\<rparr>) = inflight s"
  "inflight (put_frame t fr s) = inflight s"
  "inflight (egoto t pc' s) = inflight s"
  "inflight (raise_fault x s) = inflight s"
  by (simp_all add: inflight_def)

text \<open>A step of worker \<open>k\<close> changes the tasks in flight by what worker \<open>k\<close> carries
  before and after.\<close>

lemma worker_step_workers:
  assumes "worker_step k s = Some s'"
  shows "workers s' = (workers s)[k := workers s' ! k]"
  using assms worker_step_guard(2) [OF assms]
  by (cases rule: worker_step_cases) simp_all

lemma worker_step_inflight:
  assumes "worker_step k s = Some s'"
  shows "inflight s' + carried (workers s ! k) = inflight s + carried (workers s' ! k)"
proof -
  from assms have "k < length (workers s)"
    by (rule worker_step_guard)
  then have "sum_list (map carried ((workers s)[k := workers s' ! k])) + carried (workers s ! k)
      = sum_list (map carried (workers s)) + carried (workers s' ! k)"
    by (rule sum_list_map_update)
  with worker_step_workers [OF assms] show ?thesis
    by (simp add: inflight_def)
qed

lemma acct_inv_worker:
  assumes step: "worker_step k s = Some s'" and inv: "acct_inv s" and wk: "worker_inv s"
  shows "acct_inv s'"
proof -
  from step have k: "k < length (workers s)"
    by (rule worker_step_guard)
  with wk have p: "pc_inv (wpc (workers s ! k)) (stop s) (tasks s) (wtask (workers s ! k))"
    by (rule worker_invD)
  from step inv p k worker_step_inflight [OF step] show ?thesis
    by (cases rule: worker_step_cases) (auto simp: acct_inv_def carried_def)
qed

lemma acct_inv_owner:
  assumes "owner_step s = Some s'" and "acct_inv s"
  shows "acct_inv s'"
  using assms
  by (cases rule: owner_step_cases)
     (auto simp: acct_inv_def inflight_def carried_def new_worker_def)

lemma acct_inv_spurious:
  assumes "spurious_wakeup k s = Some s'" and "acct_inv s"
  shows "acct_inv s'"
  using assms by (auto dest!: spurious_wakeup_frame(1) simp: acct_inv_def)

lemma acct_inv_call:
  assumes "enqueue_call t f s = Some s'" and "acct_inv s"
  shows "acct_inv s'"
  using assms by (auto elim!: enqueue_callE simp: acct_inv_def)

lemma acct_inv_enqueue:
  assumes "enqueue_step t w s = Some s'" and "acct_inv s"
  shows "acct_inv s'"
  using assms
  by (simp add: acct_inv_def inflight_def enqueue_step_frame)

lemma reachable_acct_inv: "reachable s \<Longrightarrow> acct_inv s"
  by (induction rule: invariantI)
     (blast intro: acct_inv_init acct_inv_owner acct_inv_worker acct_inv_spurious
        acct_inv_call acct_inv_enqueue reachable_worker_inv)+

section \<open>The vector of workers\<close>

text \<open>\<open>spawned pc n\<close>: how many workers the constructor has started when the owner
  is at \<open>pc\<close> and \<open>n\<close> were asked for.\<close>

fun spawned :: "opc \<Rightarrow> size_t \<Rightarrow> size_t" where
  "spawned (O_Ctor i) n = i"
| "spawned _ n = n"

definition ctor_inv :: "'a system \<Rightarrow> bool" where
  "ctor_inv s \<longleftrightarrow>
     length (workers s) = unat (spawned (opc s) (threads s)) \<and>
     spawned (opc s) (threads s) \<le> threads s \<and>
     (\<forall>k < length (workers s). wid (workers s ! k) = of_nat k)"

lemma ctor_inv_init: "ctor_inv (ThreadPool_init n)"
  by (simp add: ctor_inv_def)

lemma ctor_inv_owner:
  assumes "owner_step s = Some s'" and "ctor_inv s"
  shows "ctor_inv s'"
  using assms
  by (cases rule: owner_step_cases)
     (auto simp: ctor_inv_def size_t_less_Suc inc_le nth_append new_worker_def less_Suc_eq)

lemma ctor_inv_worker:
  assumes "worker_step k s = Some s'" and "ctor_inv s"
  shows "ctor_inv s'"
  using assms by (simp add: ctor_inv_def worker_step_frame worker_step_wid)

lemma ctor_inv_spurious:
  assumes "spurious_wakeup k s = Some s'" and "ctor_inv s"
  shows "ctor_inv s'"
  using assms by (auto dest!: spurious_wakeup_frame(1) simp: ctor_inv_def)

lemma ctor_inv_call:
  assumes "enqueue_call t f s = Some s'" and "ctor_inv s"
  shows "ctor_inv s'"
  using assms by (auto elim!: enqueue_callE simp: ctor_inv_def)

lemma ctor_inv_enqueue:
  assumes "enqueue_step t w s = Some s'" and "ctor_inv s"
  shows "ctor_inv s'"
  using assms by (simp add: ctor_inv_def enqueue_step_frame)

lemma reachable_ctor_inv: "reachable s \<Longrightarrow> ctor_inv s"
  by (induction rule: invariantI)
     (blast intro: ctor_inv_init ctor_inv_owner ctor_inv_worker ctor_inv_spurious
        ctor_inv_call ctor_inv_enqueue)+

text \<open>The identity of every worker is below the number of threads asked for.\<close>

lemma ctor_inv_wid_less:
  assumes "ctor_inv s" and "k < length (workers s)"
  shows "wid (workers s ! k) < threads s"
proof -
  from assms have "k < unat (spawned (opc s) (threads s))"
    and le: "spawned (opc s) (threads s) \<le> threads s"
    and wid: "wid (workers s ! k) = of_nat k"
    by (simp_all add: ctor_inv_def)
  then have "(of_nat k :: size_t) < spawned (opc s) (threads s)"
    by (simp add: of_nat_less_unat)
  with le wid show ?thesis by simp
qed

section \<open>Calls of tasks\<close>

definition started_inv :: "'a system \<Rightarrow> bool" where
  "started_inv s \<longleftrightarrow>
     (\<forall>c \<in> set (started s). \<exists>k < length (workers s). wid (workers s ! k) = fst c) \<and>
     (\<forall>k < length (workers s). wpc (workers s ! k) = W_Running \<longrightarrow>
        (\<exists>f. wtask (workers s ! k) = Some f \<and> (wid (workers s ! k), f) \<in> set (started s)))"

lemma started_inv_init: "started_inv (ThreadPool_init n)"
  by (simp add: started_inv_def)

lemma started_inv_owner:
  assumes "owner_step s = Some s'" and "started_inv s"
  shows "started_inv s'"
  using assms
  by (cases rule: owner_step_cases)
     (auto simp: started_inv_def nth_append new_worker_def less_Suc_eq)

lemma started_inv_worker:
  assumes "worker_step k s = Some s'" and "started_inv s"
  shows "started_inv s'"
  using assms worker_step_guard(2) [OF assms(1)]
  by (cases rule: worker_step_cases)
     (auto simp: started_inv_def nth_list_update)

lemma started_inv_spurious:
  assumes "spurious_wakeup k s = Some s'" and "started_inv s"
  shows "started_inv s'"
  using assms(2) spurious_wakeup_frame(1) [OF assms(1)] by (simp add: started_inv_def)

lemma started_inv_call:
  assumes "enqueue_call t f s = Some s'" and "started_inv s"
  shows "started_inv s'"
  using assms by (elim enqueue_callE) (simp add: started_inv_def)

lemma started_inv_enqueue:
  assumes "enqueue_step t w s = Some s'" and "started_inv s"
  shows "started_inv s'"
  using assms by (simp add: started_inv_def enqueue_step_frame)

lemma reachable_started_inv: "reachable s \<Longrightarrow> started_inv s"
  by (induction rule: invariantI)
     (blast intro: started_inv_init started_inv_owner started_inv_worker started_inv_spurious
        started_inv_call started_inv_enqueue)+

section \<open>Accepted, queued, carried, called\<close>

text \<open>The two histories together: every accepted task is in exactly one of three
  places. It is in the queue, or a worker has taken it and not yet called it, or
  it has been called.\<close>

lemma reachable_accounting:
  assumes "reachable s"
  shows "mset (accepted s) = mset (map snd (started s)) + inflight s + mset (tasks s)"
  using reachable_fifo_inv [OF assms] reachable_acct_inv [OF assms]
  by (simp add: fifo_inv_def acct_inv_def)

lemma started_mset_accepted:
  assumes "reachable s"
  shows "mset (map snd (started s)) \<subseteq># mset (accepted s)"
  by (simp add: reachable_accounting [OF assms])

lemma started_accepted:
  assumes "reachable s" and "c \<in> set (started s)"
  shows "snd c \<in> set (accepted s)"
proof -
  have "set_mset (mset (map snd (started s))) \<subseteq> set_mset (mset (accepted s))"
    using started_mset_accepted [OF assms(1)] by (rule set_mset_mono)
  then have "snd ` set (started s) \<subseteq> set (accepted s)" by simp
  with assms(2) show ?thesis by blast
qed

end
