(* ===== verification/Shutdown.thy ===== *)
theory Shutdown
  imports History_Invariants
begin

text \<open>
  The end of a pool: what the destructor (lines 81--90 of \<^verbatim>\<open>src/ThreadPool.h\<close>)
  and the test of line 51 establish together. \<open>stop\<close> is set exactly from the
  assignment of line 85 on; a worker leaves its loop only when the pool is
  stopped and the queue is empty, and the queue stays empty from then on; the
  destructor passes \<^verbatim>\<open>join\<close> of a worker only after that worker has left. With
  the accounting of \<open>History_Invariants\<close> this gives the drain guarantee: when
  the destructor of a pool with at least one worker returns, every accepted
  task has been called.
\<close>

section \<open>The stop flag\<close>

fun stopping :: "opc \<Rightarrow> bool" where
  "stopping D_Unlock = True"
| "stopping D_Notify = True"
| "stopping (D_Join k) = True"
| "stopping D_Done = True"
| "stopping _ = False"

definition stop_inv :: "'a system \<Rightarrow> bool" where
  "stop_inv s \<longleftrightarrow> stop s = stopping (opc s)"

lemma stop_inv_init: "stop_inv (ThreadPool_init n)"
  by (simp add: stop_inv_def)

lemma stop_inv_owner:
  assumes "owner_step s = Some s'" and "stop_inv s"
  shows "stop_inv s'"
  using assms by (cases rule: owner_step_cases) (auto simp: stop_inv_def)

lemma stop_inv_worker:
  assumes "worker_step k s = Some s'" and "stop_inv s"
  shows "stop_inv s'"
  using assms by (simp add: stop_inv_def worker_step_frame)

lemma stop_inv_spurious:
  assumes "spurious_wakeup k s = Some s'" and "stop_inv s"
  shows "stop_inv s'"
  using assms(2) spurious_wakeup_frame(1) [OF assms(1)] by (simp add: stop_inv_def)

lemma stop_inv_call:
  assumes "enqueue_call t f s = Some s'" and "stop_inv s"
  shows "stop_inv s'"
  using assms by (elim enqueue_callE) (simp add: stop_inv_def)

lemma stop_inv_enqueue:
  assumes "enqueue_step t w s = Some s'" and "stop_inv s"
  shows "stop_inv s'"
  using assms by (simp add: stop_inv_def enqueue_step_frame)

lemma reachable_stop_inv: "reachable s \<Longrightarrow> stop_inv s"
  by (induction rule: invariantI)
     (blast intro: stop_inv_init stop_inv_owner stop_inv_worker stop_inv_spurious
        stop_inv_call stop_inv_enqueue)+

text \<open>No step clears the flag.\<close>

lemma step_stop_mono:
  assumes "step s s'" and "stop s"
  shows "stop s'"
  using assms
proof cases
  case owner
  then show ?thesis using \<open>stop s\<close> by (cases rule: owner_step_cases) auto
qed (auto elim!: enqueue_callE dest!: spurious_wakeup_frame(1)
      simp: worker_step_frame enqueue_step_frame)

section \<open>Workers that have left\<close>

definition exited :: "'a system \<Rightarrow> bool" where
  "exited s \<longleftrightarrow> (\<exists>k < length (workers s). wpc (workers s ! k) = W_Exited)"

definition exit_inv :: "'a system \<Rightarrow> bool" where
  "exit_inv s \<longleftrightarrow> (exited s \<longrightarrow> stop s \<and> tasks s = [])"

lemma exit_inv_init: "exit_inv (ThreadPool_init n)"
  by (simp add: exit_inv_def exited_def)

text \<open>A worker that has left stays where it is.\<close>

lemma worker_step_not_exited:
  assumes "worker_step k s = Some s'"
  shows "wpc (workers s ! k) \<noteq> W_Exited"
  using assms by (cases rule: worker_step_pcE) simp_all

lemma worker_step_exited:
  assumes "worker_step k s = Some s'" and "wpc (workers s ! j) = W_Exited"
  shows "wpc (workers s' ! j) = W_Exited"
  using assms worker_step_not_exited [OF assms(1)] worker_step_others [OF assms(1), of j]
  by (cases "j = k") simp_all

lemma exited_owner:
  assumes "owner_step s = Some s'"
  shows "exited s' = exited s"
  using assms
  by (cases rule: owner_step_cases)
     (auto simp: exited_def nth_append new_worker_def less_Suc_eq)

lemma exit_inv_owner:
  assumes "owner_step s = Some s'" and "exit_inv s"
  shows "exit_inv s'"
  using assms exited_owner [OF assms(1)] step_stop_mono [OF step.owner, OF assms(1)]
  by (auto simp: exit_inv_def owner_step_frame)

lemma exit_inv_worker:
  assumes "worker_step k s = Some s'" and "exit_inv s"
  shows "exit_inv s'"
  using assms worker_step_guard(2) [OF assms(1)]
  by (cases rule: worker_step_cases)
     (auto simp: exit_inv_def exited_def nth_list_update split: if_splits)

lemma exit_inv_spurious:
  assumes "spurious_wakeup k s = Some s'" and "exit_inv s"
  shows "exit_inv s'"
  using assms(2) spurious_wakeup_frame(1) [OF assms(1)] by (simp add: exit_inv_def exited_def)

lemma exit_inv_call:
  assumes "enqueue_call t f s = Some s'" and "exit_inv s"
  shows "exit_inv s'"
  using assms by (elim enqueue_callE) (simp add: exit_inv_def exited_def)

lemma exit_inv_enqueue:
  assumes "enqueue_step t w s = Some s'" and "exit_inv s" and "call_inv s"
  shows "exit_inv s'"
  using assms
  by (cases rule: enqueue_step_cases) (auto simp: exit_inv_def exited_def call_inv_def)

lemma reachable_exit_inv: "reachable s \<Longrightarrow> exit_inv s"
  by (induction rule: invariantI)
     (blast intro: exit_inv_init exit_inv_owner exit_inv_worker exit_inv_spurious
        exit_inv_call exit_inv_enqueue reachable_call_inv)+

section \<open>Joining the workers\<close>

text \<open>\<open>joined pc n\<close>: how many of the \<open>n\<close> workers the destructor has joined when
  the owner is at \<open>pc\<close>.\<close>

fun joined :: "opc \<Rightarrow> nat \<Rightarrow> nat" where
  "joined (D_Join k) n = min k n"
| "joined D_Done n = n"
| "joined _ n = 0"

definition join_inv :: "'a system \<Rightarrow> bool" where
  "join_inv s \<longleftrightarrow>
     (\<forall>j < joined (opc s) (length (workers s)). wpc (workers s ! j) = W_Exited)"

lemma join_inv_init: "join_inv (ThreadPool_init n)"
  by (simp add: join_inv_def)

lemma join_inv_owner:
  assumes "owner_step s = Some s'" and "join_inv s"
  shows "join_inv s'"
  using assms
  by (cases rule: owner_step_cases) (auto simp: join_inv_def less_Suc_eq min_def)

lemma join_inv_worker:
  assumes "worker_step k s = Some s'" and "join_inv s"
  shows "join_inv s'"
  using assms by (simp add: join_inv_def worker_step_frame worker_step_exited)

lemma join_inv_spurious:
  assumes "spurious_wakeup k s = Some s'" and "join_inv s"
  shows "join_inv s'"
  using assms(2) spurious_wakeup_frame(1) [OF assms(1)] by (simp add: join_inv_def)

lemma join_inv_call:
  assumes "enqueue_call t f s = Some s'" and "join_inv s"
  shows "join_inv s'"
  using assms by (elim enqueue_callE) (simp add: join_inv_def)

lemma join_inv_enqueue:
  assumes "enqueue_step t w s = Some s'" and "join_inv s"
  shows "join_inv s'"
  using assms by (simp add: join_inv_def enqueue_step_frame)

lemma reachable_join_inv: "reachable s \<Longrightarrow> join_inv s"
  by (induction rule: invariantI)
     (blast intro: join_inv_init join_inv_owner join_inv_worker join_inv_spurious
        join_inv_call join_inv_enqueue)+

section \<open>After the destructor\<close>

lemma done_all_exited:
  assumes "reachable s" and "opc s = D_Done" and "k < length (workers s)"
  shows "wpc (workers s ! k) = W_Exited"
  using reachable_join_inv [OF assms(1)] assms(2,3) by (simp add: join_inv_def)

lemma done_length_workers:
  assumes "reachable s" and "opc s = D_Done"
  shows "length (workers s) = unat (threads s)"
  using reachable_ctor_inv [OF assms(1)] assms(2) by (simp add: ctor_inv_def)

lemma all_exited_inflight:
  assumes "\<forall>k < length ws. wpc (ws ! k) = W_Exited"
  shows "sum_list (map carried ws) = {#}"
  using assms
proof (induction ws)
  case Nil
  then show ?case by simp
next
  case (Cons w ws)
  from Cons.prems have "wpc w = W_Exited" and "\<forall>k < length ws. wpc (ws ! k) = W_Exited"
    by auto
  with Cons.IH show ?case by (simp add: carried_def)
qed

lemma done_inflight:
  assumes "reachable s" and "opc s = D_Done"
  shows "inflight s = {#}"
  unfolding inflight_def
  by (rule all_exited_inflight) (simp add: done_all_exited [OF assms])

lemma done_tasks_empty:
  assumes "reachable s" and "opc s = D_Done" and "threads s \<noteq> 0"
  shows "tasks s = []"
proof -
  from assms have "0 < length (workers s)"
    by (simp add: done_length_workers unat_gt_0)
  with assms(1,2) have "exited s"
    unfolding exited_def using done_all_exited by blast
  with reachable_exit_inv [OF assms(1)] show ?thesis
    by (simp add: exit_inv_def)
qed

end
