(* ===== verification/Fault_Freedom.thy ===== *)
theory Fault_Freedom
  imports Shutdown
begin

text \<open>
  The faults of the model and when they can happen. \<open>Undefined\<close> stands for the
  statements of \<^verbatim>\<open>src/ThreadPool.h\<close> that have no defined behaviour when their
  precondition fails: \<^verbatim>\<open>tasks.front()\<close> and \<^verbatim>\<open>tasks.pop()\<close> on an empty queue
  (lines 53, 54), \<^verbatim>\<open>condition.wait\<close> without the lock (line 49) and the release
  of a lock that the thread does not hold (lines 52, 56, 72, 76, 86). No
  reachable state has this fault. \<open>Terminate\<close> stands for an exception that
  leaves the thread function of a worker (line 58); it happens only when a
  task that was called throws.
\<close>

section \<open>The fault a step can raise\<close>

lemma worker_step_fault:
  assumes "worker_step k s = Some s'"
  shows "fault s' = Some Undefined \<Longrightarrow> worker_ub k s"
    and "fault s' = Some Terminate \<Longrightarrow> worker_throws k s"
  using assms worker_step_guard(1) [OF assms]
  by (cases rule: worker_step_cases; auto)+

lemma owner_step_fault:
  assumes "owner_step s = Some s'" and "lock_inv s"
  shows "fault s' = None"
  using assms owner_step_guard(1) [OF assms(1)]
  by (cases rule: owner_step_cases) (auto dest: lock_inv_owner_pc)

lemma enqueue_step_fault:
  assumes "enqueue_step t w s = Some s'" and "lock_inv s"
  shows "fault s' = None"
  using assms enqueue_step_guard(1) [OF assms(1)]
  by (cases rule: enqueue_step_cases) (auto dest: lock_inv_frame_pc)

lemma worker_no_ub:
  assumes "lock_inv s" and "worker_inv s" and "k < length (workers s)"
  shows "\<not> worker_ub k s"
  using lock_inv_worker_pc [OF assms(1,3)] worker_invD [OF assms(2,3)]
  by (cases "wpc (workers s ! k)") (auto simp: worker_ub_def)

section \<open>Tasks that throw\<close>

definition thrown :: "'a system \<Rightarrow> bool" where
  "thrown s \<longleftrightarrow> (\<exists>c \<in> set (started s). invoke (snd c) (fst c) = Throws)"

lemma worker_throws_thrown:
  assumes "worker_throws k s" and "worker_inv s" and "started_inv s"
    and "k < length (workers s)"
  shows "thrown s"
proof -
  from assms(1) worker_invD [OF assms(2,4)] obtain f
    where run: "wpc (workers s ! k) = W_Running" and f: "wtask (workers s ! k) = Some f"
      and throws: "invoke f (wid (workers s ! k)) = Throws"
    by (cases "wpc (workers s ! k)") (auto simp: worker_throws_def split: option.splits)
  from assms(3,4) run f have "(wid (workers s ! k), f) \<in> set (started s)"
    by (auto simp: started_inv_def)
  with throws show ?thesis
    unfolding thrown_def by force
qed

lemma worker_step_started:
  assumes "worker_step k s = Some s'"
  shows "set (started s) \<subseteq> set (started s')"
  using assms by (cases rule: worker_step_cases) auto

section \<open>The invariant\<close>

definition fault_inv :: "'a system \<Rightarrow> bool" where
  "fault_inv s \<longleftrightarrow> fault s = None \<or> (fault s = Some Terminate \<and> thrown s)"

lemma fault_inv_init: "fault_inv (ThreadPool_init n)"
  by (simp add: fault_inv_def)

lemma fault_inv_worker:
  assumes step: "worker_step k s = Some s'" and lock: "lock_inv s" and wk: "worker_inv s"
    and st: "started_inv s"
  shows "fault_inv s'"
proof (cases "fault s'")
  case None
  then show ?thesis by (simp add: fault_inv_def)
next
  case (Some x)
  note k = worker_step_guard(2) [OF step]
  show ?thesis
  proof (cases x)
    case Terminate
    with Some have "worker_throws k s"
      by (simp add: worker_step_fault(2) [OF step])
    then have "thrown s"
      using wk st k by (rule worker_throws_thrown)
    then have "thrown s'"
      using worker_step_started [OF step] by (auto simp: thrown_def)
    with Some Terminate show ?thesis by (simp add: fault_inv_def)
  next
    case Undefined
    with Some have "worker_ub k s"
      by (simp add: worker_step_fault(1) [OF step])
    with worker_no_ub [OF lock wk k] show ?thesis by simp
  qed
qed

lemma fault_inv_owner:
  assumes "owner_step s = Some s'" and "lock_inv s"
  shows "fault_inv s'"
  using assms by (simp add: fault_inv_def owner_step_fault)

lemma fault_inv_enqueue:
  assumes "enqueue_step t w s = Some s'" and "lock_inv s"
  shows "fault_inv s'"
  using assms by (simp add: fault_inv_def enqueue_step_fault)

lemma fault_inv_spurious:
  assumes "spurious_wakeup k s = Some s'"
  shows "fault_inv s'"
  using spurious_wakeup_frame [OF assms] by (simp add: fault_inv_def)

lemma fault_inv_call:
  assumes "enqueue_call t f s = Some s'"
  shows "fault_inv s'"
  using assms by (elim enqueue_callE) (simp add: fault_inv_def)

lemma reachable_fault_inv: "reachable s \<Longrightarrow> fault_inv s"
  by (induction rule: invariantI)
     (blast intro: fault_inv_init fault_inv_owner fault_inv_worker fault_inv_spurious
        fault_inv_call fault_inv_enqueue reachable_lock_inv reachable_worker_inv
        reachable_started_inv)+

section \<open>Consequences\<close>

lemma reachable_no_ub: "reachable s \<Longrightarrow> fault s \<noteq> Some Undefined"
  by (auto dest!: reachable_fault_inv simp: fault_inv_def)

lemma well_behaved_not_thrown:
  assumes "reachable s" and "list_all well_behaved (accepted s)"
  shows "\<not> thrown s"
proof
  assume "thrown s"
  then obtain c where c: "c \<in> set (started s)" and "invoke (snd c) (fst c) = Throws"
    by (auto simp: thrown_def)
  moreover from started_accepted [OF assms(1) c] assms(2) have "well_behaved (snd c)"
    by (simp add: list_all_iff)
  ultimately show False by (simp add: well_behaved_def)
qed

end
