(* ===== verification/Progress.thy ===== *)
theory Progress
  imports Fault_Freedom
begin

text \<open>
  Blocking and waking. First, when each thread is blocked: a worker at the lock
  of line 47 while the mutex is held, in \<^verbatim>\<open>wait\<close> (line 49) until it is woken
  and the mutex is free, and in a task that is inside \<^verbatim>\<open>enqueue\<close>; a caller at
  the lock of line 68; the owner at the lock of line 84 and in \<^verbatim>\<open>join\<close>
  (line 89). Then the invariants of the condition variable: only workers
  inside \<^verbatim>\<open>wait\<close> sleep, nobody sleeps once the destructor has called
  \<^verbatim>\<open>notify_all\<close>, and no wake-up is lost: whenever a task is in the queue of a
  pool with workers, a worker is awake or a caller is on its way to
  \<^verbatim>\<open>notify_one\<close>.
\<close>

section \<open>When a thread is blocked\<close>

lemma worker_step_None_iff:
  "worker_step k s = None \<longleftrightarrow>
     fault s \<noteq> None \<or> length (workers s) \<le> k \<or>
     (wpc (workers s ! k) = W_Lock \<and> queue_mutex s \<noteq> None) \<or>
     (wpc (workers s ! k) = W_Wait \<and> (Worker k \<in> condition s \<or> queue_mutex s \<noteq> None)) \<or>
     (wpc (workers s ! k) = W_Running \<and> frames s (Worker k) \<noteq> None) \<or>
     wpc (workers s ! k) = W_Exited"
  by (cases "wpc (workers s ! k)")
     (auto simp: worker_step_def worker_ops cv_resume_def
        split: option.splits outcome.splits simp del: worker_step_length)

lemma enqueue_step_None_iff:
  "enqueue_step t w s = None \<longleftrightarrow>
     fault s \<noteq> None \<or> opc s = D_Done \<or>
     (case frames s t of
        None \<Rightarrow> True
      | Some fr \<Rightarrow>
          (epc fr = E_Lock \<and> queue_mutex s \<noteq> None) \<or>
          (epc fr = E_Notify \<and> condition s \<noteq> {} \<and> Worker w \<notin> condition s))"
proof (cases "frames s t")
  case None
  then show ?thesis by (simp add: enqueue_step_def)
next
  case (Some fr)
  then show ?thesis
    by (cases "epc fr")
       (auto simp: enqueue_step_def enqueue_ops cv_notify_one_def split: option.splits)
qed

lemma owner_step_None_iff:
  "owner_step s = None \<longleftrightarrow>
     fault s \<noteq> None \<or>
     (case opc s of
        O_Live \<Rightarrow> frames s Owner \<noteq> None
      | D_Lock \<Rightarrow> queue_mutex s \<noteq> None
      | D_Join k \<Rightarrow> k < length (workers s) \<and> wpc (workers s ! k) \<noteq> W_Exited
      | D_Done \<Rightarrow> True
      | _ \<Rightarrow> False)"
  by (cases "opc s") (auto simp: owner_step_def lifecycle_ops split: option.splits)

section \<open>Who sleeps\<close>

fun sleeper :: "'a system \<Rightarrow> tid \<Rightarrow> bool" where
  "sleeper s (Worker k) \<longleftrightarrow> k < length (workers s) \<and> wpc (workers s ! k) = W_Wait"
| "sleeper s _ \<longleftrightarrow> False"

definition cond_inv :: "'a system \<Rightarrow> bool" where
  "cond_inv s \<longleftrightarrow> (\<forall>t \<in> condition s. sleeper s t)"

lemma cond_inv_init: "cond_inv (ThreadPool_init n)"
  by (simp add: cond_inv_def)

lemma cond_invD:
  assumes "cond_inv s" and "Worker k \<in> condition s"
  shows "k < length (workers s)" and "wpc (workers s ! k) = W_Wait"
  using assms by (auto simp: cond_inv_def dest!: bspec)

lemma cond_inv_subset:
  assumes "cond_inv s" and "condition s' \<subseteq> condition s" and "workers s' = workers s"
  shows "cond_inv s'"
proof -
  have "sleeper s' t = sleeper s t" for t
    using assms(3) by (cases t) simp_all
  with assms(1,2) show ?thesis
    unfolding cond_inv_def by blast
qed

lemma sleeper_owner:
  assumes "owner_step s = Some s'" and "sleeper s t"
  shows "sleeper s' t"
  using assms
  by (cases rule: owner_step_cases; cases t) (auto simp: nth_append)

lemma cond_inv_owner:
  assumes "owner_step s = Some s'" and "cond_inv s"
  shows "cond_inv s'"
proof -
  have "condition s' \<subseteq> condition s"
    using assms(1) by (cases rule: owner_step_cases) auto
  with assms show ?thesis
    unfolding cond_inv_def by (blast intro: sleeper_owner)
qed

text \<open>A worker that moves is not asleep, unless the move is the call of
  \<^verbatim>\<open>wait\<close>.\<close>

lemma sleeper_worker:
  assumes "worker_step k s = Some s'" and "sleeper s t" and "t \<in> condition s"
  shows "sleeper s' t"
proof (cases "t = Worker k")
  case True
  with assms show ?thesis
    by (cases rule: worker_step_cases) auto
next
  case False
  with assms(2) worker_step_others [OF assms(1)] show ?thesis
    by (cases t) (auto simp: worker_step_length [OF assms(1)])
qed

lemma cond_inv_worker:
  assumes "worker_step k s = Some s'" and "cond_inv s"
  shows "cond_inv s'"
  unfolding cond_inv_def
proof
  fix t
  assume t: "t \<in> condition s'"
  have "condition s' = condition s \<or>
    (condition s' = insert (Worker k) (condition s) \<and> sleeper s' (Worker k))"
    using assms(1) worker_step_guard(2) [OF assms(1)]
    by (cases rule: worker_step_cases) auto
  with t consider "t \<in> condition s" | "sleeper s' t"
    by auto
  then show "sleeper s' t"
  proof cases
    case 1
    with assms(2) have "sleeper s t"
      by (simp add: cond_inv_def)
    with assms(1) show ?thesis
      using 1 by (rule sleeper_worker)
  qed
qed

lemma cond_inv_spurious:
  assumes "spurious_wakeup k s = Some s'" and "cond_inv s"
  shows "cond_inv s'"
  using assms(2) by (rule cond_inv_subset) (simp_all add: spurious_wakeup_frame(1) [OF assms(1)])

lemma cond_inv_call:
  assumes "enqueue_call t f s = Some s'" and "cond_inv s"
  shows "cond_inv s'"
  using assms by (elim enqueue_callE) (simp add: cond_inv_subset)

lemma cond_inv_enqueue:
  assumes "enqueue_step t w s = Some s'" and "cond_inv s"
  shows "cond_inv s'"
proof -
  have "condition s' \<subseteq> condition s"
    using assms(1) by (cases rule: enqueue_step_cases) auto
  with assms(2) show ?thesis
    by (rule cond_inv_subset) (simp add: enqueue_step_frame [OF assms(1)])
qed

lemma reachable_cond_inv: "reachable s \<Longrightarrow> cond_inv s"
  by (induction rule: invariantI)
     (blast intro: cond_inv_init cond_inv_owner cond_inv_worker cond_inv_spurious
        cond_inv_call cond_inv_enqueue)+

section \<open>Nobody sleeps after \<^verbatim>\<open>notify_all\<close>\<close>

fun notified :: "opc \<Rightarrow> bool" where
  "notified (D_Join k) = True"
| "notified D_Done = True"
| "notified _ = False"

lemma notified_stopping: "notified pc \<Longrightarrow> stopping pc"
  by (cases pc) simp_all

definition quiet_inv :: "'a system \<Rightarrow> bool" where
  "quiet_inv s \<longleftrightarrow> (notified (opc s) \<longrightarrow> condition s = {})"

lemma quiet_inv_init: "quiet_inv (ThreadPool_init n)"
  by (simp add: quiet_inv_def)

lemma quiet_inv_owner:
  assumes "owner_step s = Some s'" and "quiet_inv s"
  shows "quiet_inv s'"
  using assms by (cases rule: owner_step_cases) (auto simp: quiet_inv_def)

lemma quiet_inv_worker:
  assumes "worker_step k s = Some s'" and "quiet_inv s" and "worker_inv s" and "stop_inv s"
  shows "quiet_inv s'"
  using assms worker_invD [OF assms(3) worker_step_guard(2) [OF assms(1)]]
  by (cases rule: worker_step_cases)
     (auto simp: quiet_inv_def stop_inv_def dest: notified_stopping)

lemma quiet_inv_spurious:
  assumes "spurious_wakeup k s = Some s'" and "quiet_inv s"
  shows "quiet_inv s'"
  using assms(2) spurious_wakeup_frame(1) [OF assms(1)] by (simp add: quiet_inv_def)

lemma quiet_inv_call:
  assumes "enqueue_call t f s = Some s'" and "quiet_inv s"
  shows "quiet_inv s'"
  using assms by (elim enqueue_callE) (simp add: quiet_inv_def)

lemma quiet_inv_enqueue:
  assumes "enqueue_step t w s = Some s'" and "quiet_inv s"
  shows "quiet_inv s'"
  using assms by (cases rule: enqueue_step_cases) (auto simp: quiet_inv_def)

lemma reachable_quiet_inv: "reachable s \<Longrightarrow> quiet_inv s"
  by (induction rule: invariantI)
     (blast intro: quiet_inv_init quiet_inv_owner quiet_inv_worker quiet_inv_spurious
        quiet_inv_call quiet_inv_enqueue reachable_worker_inv reachable_stop_inv)+

section \<open>No wake-up is lost\<close>

text \<open>A call between its \<^verbatim>\<open>emplace\<close> and its \<^verbatim>\<open>notify_one\<close> is a wake-up that is
  still to come.\<close>

fun epc_pending :: "epc \<Rightarrow> bool" where
  "epc_pending E_Inc = True"
| "epc_pending E_Unlock = True"
| "epc_pending E_Notify = True"
| "epc_pending _ = False"

definition pending_at :: "'a system \<Rightarrow> tid \<Rightarrow> bool" where
  "pending_at s t \<longleftrightarrow> (case frames s t of Some fr \<Rightarrow> epc_pending (epc fr) | None \<Rightarrow> False)"

definition notifier :: "'a system \<Rightarrow> bool" where
  "notifier s \<longleftrightarrow> (\<exists>t. pending_at s t)"

definition awake :: "'a system \<Rightarrow> bool" where
  "awake s \<longleftrightarrow>
     (\<exists>k < length (workers s). wpc (workers s ! k) \<noteq> W_Exited \<and> Worker k \<notin> condition s)"

definition wake_inv :: "'a system \<Rightarrow> bool" where
  "wake_inv s \<longleftrightarrow> (tasks s \<noteq> [] \<and> workers s \<noteq> [] \<longrightarrow> awake s \<or> notifier s)"

lemma wake_inv_init: "wake_inv (ThreadPool_init n)"
  by (simp add: wake_inv_def)

lemma awakeI:
  assumes "k < length (workers s)" and "wpc (workers s ! k) \<noteq> W_Exited"
    and "Worker k \<notin> condition s"
  shows "awake s"
  using assms unfolding awake_def by blast

lemma awake_mono:
  assumes "awake s" and "workers s' = workers s" and "condition s' \<subseteq> condition s"
  shows "awake s'"
  using assms unfolding awake_def by auto

lemma notifier_eqI:
  assumes "\<And>u. pending_at s' u = pending_at s u"
  shows "notifier s' = notifier s"
  by (simp add: notifier_def assms)

lemma wake_inv_frame:
  assumes "wake_inv s" and "tasks s' = tasks s" and "workers s' = workers s"
    and "condition s' \<subseteq> condition s" and "frames s' = frames s"
  shows "wake_inv s'"
proof -
  have "notifier s' = notifier s"
    by (rule notifier_eqI) (simp add: pending_at_def assms(5))
  moreover have "awake s'" if "awake s"
    using that assms(3,4) by (rule awake_mono)
  ultimately show ?thesis
    using assms(1-3) by (auto simp: wake_inv_def)
qed

lemma not_exited:
  assumes "exit_inv s" and "tasks s \<noteq> []" and "k < length (workers s)"
  shows "wpc (workers s ! k) \<noteq> W_Exited"
  using assms by (auto simp: exit_inv_def exited_def)

text \<open>With nobody asleep, every worker of a pool with work is awake.\<close>

lemma awake_empty:
  assumes "exit_inv s" and "tasks s \<noteq> []" and "workers s \<noteq> []" and "condition s = {}"
  shows "awake s"
proof (rule awakeI)
  show "0 < length (workers s)" using assms(3) by simp
  then show "wpc (workers s ! 0) \<noteq> W_Exited"
    using assms(1,2) by (simp add: not_exited)
  show "Worker 0 \<notin> condition s" using assms(4) by simp
qed

text \<open>A worker that moves stays awake, unless the move is the call of \<^verbatim>\<open>wait\<close>
  or the return from the thread function; both happen with the queue empty.\<close>

lemma worker_step_awake:
  assumes step: "worker_step k s = Some s'" and t: "tasks s' \<noteq> []"
    and w: "worker_inv s" and c: "cond_inv s"
  shows "wpc (workers s' ! k) \<noteq> W_Exited \<and> Worker k \<notin> condition s'"
proof -
  note k = worker_step_guard(2) [OF step]
  note facts = t k worker_invD [OF w k] cond_invD(2) [OF c, of k]
  from step show ?thesis
  proof (cases rule: worker_step_cases)
    case (Fault x)
    with facts worker_step_not_exited [OF step] show ?thesis
      by (cases x) (auto simp: worker_ub_def worker_throws_def)
  qed (use facts in auto)
qed

lemma wake_inv_worker:
  assumes step: "worker_step k s = Some s'" and inv: "wake_inv s" and w: "worker_inv s"
    and c: "cond_inv s"
  shows "wake_inv s'"
proof (cases "tasks s' \<noteq> [] \<and> workers s' \<noteq> []")
  case True
  then have t: "tasks s' \<noteq> []" by simp
  note k = worker_step_guard(2) [OF step]
  have "awake s'"
    using k worker_step_awake [OF step t w c]
    by (intro awakeI [of k]) (simp_all add: worker_step_length [OF step])
  then show ?thesis by (simp add: wake_inv_def)
next
  case False
  then show ?thesis by (auto simp: wake_inv_def)
qed

lemma wake_inv_spurious:
  assumes "spurious_wakeup k s = Some s'" and "wake_inv s"
  shows "wake_inv s'"
  using assms(2) by (rule wake_inv_frame) (simp_all add: spurious_wakeup_frame(1) [OF assms(1)])

lemma wake_inv_call:
  assumes "enqueue_call t f s = Some s'" and "wake_inv s"
  shows "wake_inv s'"
  using assms
proof (elim enqueue_callE)
  assume none: "frames s t = None"
    and s': "s' = put_frame t (Some \<lparr>epc = E_Lock, farg = f\<rparr>) s"
  have "notifier s'" if "notifier s"
  proof -
    from that obtain u where u: "pending_at s u"
      by (auto simp: notifier_def)
    with none have "u \<noteq> t" by (auto simp: pending_at_def)
    with u have "pending_at s' u" by (simp add: s' pending_at_def)
    then show ?thesis unfolding notifier_def by blast
  qed
  moreover have "awake s'" if "awake s"
    using that by (rule awake_mono) (simp_all add: s')
  ultimately show ?thesis
    using assms(2) by (auto simp: wake_inv_def s')
qed

lemma wake_inv_owner:
  assumes step: "owner_step s = Some s'" and inv: "wake_inv s"
    and cond: "cond_inv s" and exit: "exit_inv s"
  shows "wake_inv s'"
  using step
proof (cases rule: owner_step_cases)
  case (Spawn i)
  have "Worker (length (workers s)) \<notin> condition s"
    using cond_invD(1) [OF cond] by blast
  with Spawn have "awake s'"
    by (intro awakeI [of "length (workers s)"]) (simp_all add: new_worker_def)
  then show ?thesis by (simp add: wake_inv_def)
next
  case Notify_all
  with exit have "tasks s' \<noteq> [] \<and> workers s' \<noteq> [] \<longrightarrow> awake s'"
    by (auto intro!: awake_empty simp: exit_inv_def exited_def)
  then show ?thesis by (simp add: wake_inv_def)
qed (rule wake_inv_frame [OF inv]; simp)+


lemma wake_inv_enqueue:
  assumes step: "enqueue_step t w s = Some s'" and inv: "wake_inv s"
    and cond: "cond_inv s" and exit: "exit_inv s"
  shows "wake_inv s'"
  using step
proof (cases rule: enqueue_step_cases)
  case (Notify_none fr)
  with exit have "tasks s' \<noteq> [] \<and> workers s' \<noteq> [] \<longrightarrow> awake s'"
    by (auto intro!: awake_empty simp: exit_inv_def exited_def)
  then show ?thesis by (simp add: wake_inv_def)
next
  case (Notify_one fr)
  with cond_invD [OF cond, of w] have "awake s'"
    by (intro awakeI [of w]) simp_all
  then show ?thesis by (simp add: wake_inv_def)
next
  case (Emplace fr)
  then have "notifier s'"
    unfolding notifier_def by (intro exI [of _ t]) (simp add: egoto_def pending_at_def)
  then show ?thesis by (simp add: wake_inv_def)
next
  case (Inc fr)
  then have "notifier s'"
    unfolding notifier_def by (intro exI [of _ t]) (simp add: egoto_def pending_at_def)
  then show ?thesis by (simp add: wake_inv_def)
next
  case (Unlock fr)
  then have "notifier s'"
    unfolding notifier_def by (intro exI [of _ t]) (simp add: egoto_def pending_at_def)
  then show ?thesis by (simp add: wake_inv_def)
next
  case (Lock fr)
  then have "pending_at s' u = pending_at s u" for u
    by (cases "u = t") (simp_all add: pending_at_def egoto_def)
  then have "notifier s' = notifier s"
    by (rule notifier_eqI)
  with Lock inv show ?thesis by (simp add: wake_inv_def awake_def)
next
  case (Check_go fr)
  then have "pending_at s' u = pending_at s u" for u
    by (cases "u = t") (simp_all add: pending_at_def egoto_def)
  then have "notifier s' = notifier s"
    by (rule notifier_eqI)
  with Check_go inv show ?thesis by (simp add: wake_inv_def awake_def)
next
  case (Reject fr)
  then have "pending_at s' u = pending_at s u" for u
    by (cases "u = t") (simp_all add: pending_at_def)
  then have "notifier s' = notifier s"
    by (rule notifier_eqI)
  with Reject inv show ?thesis by (simp add: wake_inv_def awake_def)
next
  case (Fault fr)
  with inv show ?thesis by (intro wake_inv_frame [OF inv]) simp_all
qed

lemma reachable_wake_inv: "reachable s \<Longrightarrow> wake_inv s"
  by (induction rule: invariantI)
     (blast intro: wake_inv_init wake_inv_owner wake_inv_worker wake_inv_spurious
        wake_inv_call wake_inv_enqueue reachable_cond_inv reachable_exit_inv
        reachable_worker_inv)+

section \<open>Some thread can always move\<close>

text \<open>The steps of the program itself: a statement of the owner, of a worker or
  of a caller inside \<^verbatim>\<open>enqueue\<close>. A new call and a spurious wake-up are moves of
  the environment.\<close>

fun internal :: "'a event \<Rightarrow> bool" where
  "internal Ev_Owner = True"
| "internal (Ev_Worker k) = True"
| "internal (Ev_Enqueue t w) = True"
| "internal (Ev_Spurious k) = False"
| "internal (Ev_Call t f) = False"

definition can_move :: "'a system \<Rightarrow> bool" where
  "can_move s \<longleftrightarrow> (\<exists>e. internal e \<and> fire e s \<noteq> None)"

lemma can_move_owner: "owner_step s \<noteq> None \<Longrightarrow> can_move s"
  unfolding can_move_def by (intro exI [of _ Ev_Owner]) simp

lemma can_move_worker: "worker_step k s \<noteq> None \<Longrightarrow> can_move s"
  unfolding can_move_def by (intro exI [of _ "Ev_Worker k"]) simp

lemma can_move_enqueue: "enqueue_step t w s \<noteq> None \<Longrightarrow> can_move s"
  unfolding can_move_def by (intro exI [of _ "Ev_Enqueue t w"]) simp

text \<open>A caller inside \<^verbatim>\<open>enqueue\<close> can move whenever the mutex is free or its own.\<close>

lemma frame_can_move:
  assumes "fault s = None" and "opc s \<noteq> D_Done" and fr: "frames s t = Some fr"
    and m: "queue_mutex s = None \<or> epc_locked (epc fr)" and c: "cond_inv s"
  shows "can_move s"
proof -
  obtain w where "condition s = {} \<or> Worker w \<in> condition s"
  proof (cases "condition s = {}")
    case True
    then show ?thesis using that by blast
  next
    case False
    then obtain u where u: "u \<in> condition s" by blast
    with c have "sleeper s u" by (simp add: cond_inv_def)
    then obtain w where "u = Worker w" by (cases u) simp_all
    with u show ?thesis using that by blast
  qed
  with assms(1,2) fr m have "enqueue_step t w s \<noteq> None"
    by (auto simp: enqueue_step_None_iff)
  then show ?thesis by (rule can_move_enqueue)
qed

text \<open>The thread that owns the mutex can move.\<close>

lemma holder_can_move:
  assumes "fault s = None" and "opc s \<noteq> D_Done" and "holds s t" and "cond_inv s"
  shows "can_move s"
proof -
  from assms(3) consider
      fr where "frames s t = Some fr" and "epc_locked (epc fr)"
    | "t = Owner" and "opc_locked (opc s)"
    | k where "t = Worker k" and "k < length (workers s)"
        and "wpc_locked (wpc (workers s ! k))"
    by (cases t) (auto simp: holds_def split: option.splits)
  then show ?thesis
  proof cases
    case (1 fr)
    with assms show ?thesis by (intro frame_can_move [of s t fr]) simp_all
  next
    case 2
    with assms(1) have "owner_step s \<noteq> None"
      by (cases "opc s") (auto simp: owner_step_None_iff)
    then show ?thesis by (rule can_move_owner)
  next
    case (3 k)
    with assms(1) have "worker_step k s \<noteq> None"
      by (cases "wpc (workers s ! k)") (auto simp: worker_step_None_iff)
    then show ?thesis by (rule can_move_worker)
  qed
qed

text \<open>With the mutex free, a worker that has not left can move or is inside a
  task that can, unless it sleeps.\<close>

lemma worker_can_move:
  assumes "fault s = None" and "opc s \<noteq> D_Done" and "queue_mutex s = None"
    and "k < length (workers s)" and "wpc (workers s ! k) \<noteq> W_Exited"
    and "Worker k \<notin> condition s" and "cond_inv s"
  shows "can_move s"
proof (cases "worker_step k s")
  case (Some s')
  then show ?thesis by (intro can_move_worker [of k]) simp
next
  case None
  with assms obtain fr where "frames s (Worker k) = Some fr"
    by (auto simp: worker_step_None_iff)
  with assms show ?thesis by (intro frame_can_move [of s "Worker k" fr]) simp_all
qed

lemma reachable_can_move:
  assumes r: "reachable s" and f: "fault s = None" and o: "opc s \<noteq> D_Done"
  shows "can_move s"
proof (cases "queue_mutex s")
  case (Some t)
  with reachable_lock_inv [OF r] have "holds s t" by (simp add: lock_inv_def)
  with f o show ?thesis using reachable_cond_inv [OF r] by (rule holder_can_move)
next
  case None
  note c = reachable_cond_inv [OF r]
  show ?thesis
  proof (cases "owner_step s")
    case (Some s')
    then show ?thesis by (intro can_move_owner) simp
  next
    case blocked: None
    with f o None consider
        fr where "opc s = O_Live" and "frames s Owner = Some fr"
      | k where "opc s = D_Join k" and "k < length (workers s)"
          and "wpc (workers s ! k) \<noteq> W_Exited"
      by (cases "opc s") (auto simp: owner_step_None_iff)
    then show ?thesis
    proof cases
      case (1 fr)
      with f o None c show ?thesis by (intro frame_can_move [of s Owner fr]) simp_all
    next
      case (2 k)
      with reachable_quiet_inv [OF r] have "condition s = {}"
        by (simp add: quiet_inv_def)
      with f o None 2 c show ?thesis by (intro worker_can_move [of s k]) simp_all
    qed
  qed
qed

end
