(* ===== verification/Call_Order.thy ===== *)
theory Call_Order
  imports History_Invariants
begin

text \<open>
  The order of the calls. With several workers the tasks leave the queue in the
  order of their submission (\<open>fifo_inv\<close>) but two workers may call what they
  took in either order. A pool of one thread calls the tasks in the order of
  their submission: its only worker calls what it took before it takes again.
\<close>

section \<open>What a worker holds\<close>

definition hand :: "'a worker \<Rightarrow> 'a task list" where
  "hand w =
     (if carrying (wpc w) then (case wtask w of Some f \<Rightarrow> [f] | None \<Rightarrow> []) else [])"

definition order_inv :: "'a system \<Rightarrow> bool" where
  "order_inv s \<longleftrightarrow>
     (length (workers s) \<le> 1 \<longrightarrow>
        dequeued s = map snd (started s) @ concat (map hand (workers s)))"

lemma order_inv_init: "order_inv (ThreadPool_init n)"
  by (simp add: order_inv_def)

lemma order_inv_frame:
  assumes "order_inv s" and "workers s' = workers s" and "dequeued s' = dequeued s"
    and "started s' = started s"
  shows "order_inv s'"
  using assms by (simp add: order_inv_def)

lemma order_inv_owner:
  assumes "owner_step s = Some s'" and "order_inv s"
  shows "order_inv s'"
  using assms
  by (cases rule: owner_step_cases) (auto simp: order_inv_def hand_def new_worker_def)

lemma single_worker:
  assumes "length (workers s) \<le> 1" and "k < length (workers s)"
  obtains w where "workers s = [w]" and "k = 0"
  using assms by (cases "workers s") auto

lemma order_inv_worker:
  assumes step: "worker_step k s = Some s'" and inv: "order_inv s" and wk: "worker_inv s"
  shows "order_inv s'"
proof (cases "length (workers s) \<le> 1")
  case False
  then show ?thesis
    by (simp add: order_inv_def worker_step_length [OF step])
next
  case True
  note k = worker_step_guard(2) [OF step]
  from True k obtain w where w: "workers s = [w]" and k0: "k = 0"
    by (rule single_worker)
  from wk k have "pc_inv (wpc (workers s ! k)) (stop s) (tasks s) (wtask (workers s ! k))"
    by (rule worker_invD)
  with step inv show ?thesis
    unfolding k0 by (cases rule: worker_step_cases) (auto simp: order_inv_def hand_def w)
qed

lemma order_inv_spurious:
  assumes "spurious_wakeup k s = Some s'" and "order_inv s"
  shows "order_inv s'"
  using assms(2) by (rule order_inv_frame) (simp_all add: spurious_wakeup_frame(1) [OF assms(1)])

lemma order_inv_call:
  assumes "enqueue_call t f s = Some s'" and "order_inv s"
  shows "order_inv s'"
  using assms by (elim enqueue_callE) (simp add: order_inv_def)

lemma order_inv_enqueue:
  assumes "enqueue_step t w s = Some s'" and "order_inv s"
  shows "order_inv s'"
  using assms(2) by (rule order_inv_frame) (simp_all add: enqueue_step_frame [OF assms(1)])

lemma reachable_order_inv: "reachable s \<Longrightarrow> order_inv s"
  by (induction rule: invariantI)
     (blast intro: order_inv_init order_inv_owner order_inv_worker order_inv_spurious
        order_inv_call order_inv_enqueue reachable_worker_inv)+

text \<open>In a pool of one thread the calls made so far are the first of the accepted
  tasks, in their order.\<close>

lemma single_thread_calls:
  assumes r: "reachable s" and one: "threads s = 1"
  shows "accepted s = map snd (started s) @ concat (map hand (workers s)) @ tasks s"
proof -
  from reachable_ctor_inv [OF r] one have "length (workers s) \<le> 1"
    by (simp add: ctor_inv_def word_le_nat_alt)
  with reachable_order_inv [OF r] reachable_fifo_inv [OF r] show ?thesis
    by (simp add: order_inv_def fifo_inv_def)
qed

end
