(* ===== verification/Pool_Wf.thy ===== *)
theory Pool_Wf
  imports Progress Call_Order
begin

text \<open>
  The invariants of the development in one predicate, \<open>wf_pool\<close>: the
  well-formed states of a pool. It is inductive: it holds after the member
  initialisers, and every step from a well-formed state, reachable or not,
  ends in a well-formed state. Each invariant needs only earlier ones of the
  list for the state before the step.
\<close>

definition wf_pool :: "'a system \<Rightarrow> bool" where
  "wf_pool s \<longleftrightarrow>
     frame_inv s \<and> lock_inv s \<and> worker_inv s \<and> call_inv s \<and> count_inv s \<and>
     fifo_inv s \<and> acct_inv s \<and> ctor_inv s \<and> started_inv s \<and>
     stop_inv s \<and> exit_inv s \<and> join_inv s \<and> fault_inv s \<and>
     cond_inv s \<and> quiet_inv s \<and> wake_inv s \<and> order_inv s"

lemmas init_invs =
  frame_inv_init lock_inv_init worker_inv_init call_inv_init count_inv_init fifo_inv_init
  acct_inv_init ctor_inv_init started_inv_init stop_inv_init exit_inv_init join_inv_init
  fault_inv_init cond_inv_init quiet_inv_init wake_inv_init order_inv_init

lemmas owner_invs =
  frame_inv_owner lock_inv_owner worker_inv_owner call_inv_owner count_inv_owner
  fifo_inv_owner acct_inv_owner ctor_inv_owner started_inv_owner stop_inv_owner
  exit_inv_owner join_inv_owner fault_inv_owner cond_inv_owner quiet_inv_owner wake_inv_owner order_inv_owner

lemmas worker_invs =
  frame_inv_worker lock_inv_worker worker_inv_worker call_inv_worker count_inv_worker
  fifo_inv_worker acct_inv_worker ctor_inv_worker started_inv_worker stop_inv_worker
  exit_inv_worker join_inv_worker fault_inv_worker cond_inv_worker quiet_inv_worker
  wake_inv_worker order_inv_worker

lemmas spurious_invs =
  frame_inv_spurious lock_inv_spurious worker_inv_spurious call_inv_spurious
  count_inv_spurious fifo_inv_spurious acct_inv_spurious ctor_inv_spurious
  started_inv_spurious stop_inv_spurious exit_inv_spurious join_inv_spurious
  fault_inv_spurious cond_inv_spurious quiet_inv_spurious wake_inv_spurious order_inv_spurious

lemmas call_invs =
  frame_inv_call lock_inv_call worker_inv_call call_inv_call count_inv_call fifo_inv_call
  acct_inv_call ctor_inv_call started_inv_call stop_inv_call exit_inv_call join_inv_call
  fault_inv_call cond_inv_call quiet_inv_call wake_inv_call order_inv_call

lemmas enqueue_invs =
  frame_inv_enqueue lock_inv_enqueue worker_inv_enqueue call_inv_enqueue count_inv_enqueue
  fifo_inv_enqueue acct_inv_enqueue ctor_inv_enqueue started_inv_enqueue stop_inv_enqueue
  exit_inv_enqueue join_inv_enqueue fault_inv_enqueue cond_inv_enqueue quiet_inv_enqueue
  wake_inv_enqueue order_inv_enqueue

lemma wf_pool_init: "wf_pool (ThreadPool_init n)"
  unfolding wf_pool_def by (intro conjI init_invs)

lemma wf_pool_owner:
  assumes "owner_step s = Some s'" and "wf_pool s"
  shows "wf_pool s'"
  using assms unfolding wf_pool_def
  by (elim conjE, intro conjI) (blast intro: owner_invs)+

lemma wf_pool_worker:
  assumes "worker_step k s = Some s'" and "wf_pool s"
  shows "wf_pool s'"
  using assms unfolding wf_pool_def
  by (elim conjE, intro conjI) (blast intro: worker_invs)+

lemma wf_pool_spurious:
  assumes "spurious_wakeup k s = Some s'" and "wf_pool s"
  shows "wf_pool s'"
  using assms unfolding wf_pool_def
  by (elim conjE, intro conjI) (blast intro: spurious_invs)+

lemma wf_pool_call:
  assumes "enqueue_call t f s = Some s'" and "wf_pool s"
  shows "wf_pool s'"
  using assms unfolding wf_pool_def
  by (elim conjE, intro conjI) (blast intro: call_invs)+

lemma wf_pool_enqueue:
  assumes "enqueue_step t w s = Some s'" and "wf_pool s"
  shows "wf_pool s'"
  using assms unfolding wf_pool_def
  by (elim conjE, intro conjI) (blast intro: enqueue_invs)+

lemma wf_pool_step:
  assumes "step s s'" and "wf_pool s"
  shows "wf_pool s'"
  using assms
  by cases (blast intro: wf_pool_owner wf_pool_worker wf_pool_spurious wf_pool_call
      wf_pool_enqueue)+

lemma reachable_wf_pool: "reachable s \<Longrightarrow> wf_pool s"
  by (induction rule: reachable.induct) (blast intro: wf_pool_init wf_pool_step)+

end
