(* ===== verification/Termination.thy ===== *)
theory Termination
  imports Pool_Wf
begin

text \<open>
  A closed pool comes to an end. Take a pool that no new call enters and in
  which no wake-up is spurious: its threads are the owner, the workers and the
  callers already inside \<^verbatim>\<open>enqueue\<close>. Every statement that one of them executes
  lowers a natural number, the potential \<open>pot\<close> of the state; so no schedule of
  such statements is longer than the potential of the state it starts in,
  whatever the scheduler does. Together with the absence of deadlock, such a
  pool reaches the return of its destructor or a task throws.
\<close>

section \<open>A sum that changes in one place\<close>

lemma sum_update:
  fixes f g :: "'b \<Rightarrow> nat"
  assumes "finite A" and "x \<in> A" and "\<And>y. y \<in> A \<Longrightarrow> y \<noteq> x \<Longrightarrow> g y = f y"
  shows "sum g A + f x = sum f A + g x"
proof -
  from assms(3) have "sum g (A - {x}) = sum f (A - {x})"
    by (intro sum.cong) auto
  with sum.remove [OF assms(1,2), of f] sum.remove [OF assms(1,2), of g] show ?thesis
    by simp
qed

section \<open>The potential\<close>

text \<open>What a worker can still do before it is blocked, has left, or has taken a
  task. A worker asleep in \<^verbatim>\<open>wait\<close> can do nothing.\<close>

fun wrank_pc :: "wpc \<Rightarrow> nat" where
  "wrank_pc W_Exited = 0"
| "wrank_pc W_WaitCall = 1"
| "wrank_pc W_Pop = 1"
| "wrank_pc W_Front = 2"
| "wrank_pc W_If = 3"
| "wrank_pc W_While = 4"
| "wrank_pc W_Wait = 5"
| "wrank_pc W_Lock = 5"
| "wrank_pc W_Running = 6"
| "wrank_pc W_Call = 7"
| "wrank_pc W_Unlock = 8"
| "wrank_pc W_Dec = 9"

definition wrank :: "'a system \<Rightarrow> nat \<Rightarrow> nat" where
  "wrank s k =
     (if wpc (workers s ! k) = W_Wait \<and> Worker k \<in> condition s then 0
      else wrank_pc (wpc (workers s ! k)))"

definition workers_rank :: "'a system \<Rightarrow> nat" where
  "workers_rank s = (\<Sum>k < length (workers s). wrank s k)"

text \<open>What a call can still do; putting a task into the queue pays for the turn
  of the worker that takes it, the wake-up for what the woken worker does.\<close>

fun erank :: "epc \<Rightarrow> nat" where
  "erank E_Notify = 6"
| "erank E_Unlock = 7"
| "erank E_Inc = 8"
| "erank E_Emplace = 18"
| "erank E_Check = 19"
| "erank E_Lock = 20"

definition frank :: "'a system \<Rightarrow> tid \<Rightarrow> nat" where
  "frank s t = (case frames s t of None \<Rightarrow> 0 | Some fr \<Rightarrow> erank (epc fr))"

definition frames_rank :: "tid set \<Rightarrow> 'a system \<Rightarrow> nat" where
  "frames_rank F s = (\<Sum>t \<in> F. frank s t)"

text \<open>What the owner can still do, for \<open>n\<close> threads; \<^verbatim>\<open>notify_all\<close> pays for
  every worker it may wake, the loop of the constructor for every worker it
  starts.\<close>

fun orank :: "opc \<Rightarrow> nat \<Rightarrow> nat" where
  "orank D_Done n = 0"
| "orank (D_Join k) n = Suc (n - k)"
| "orank D_Notify n = 6 * n + 2"
| "orank D_Unlock n = 6 * n + 3"
| "orank D_Stop n = 6 * n + 4"
| "orank D_Lock n = 6 * n + 5"
| "orank O_Live n = 6 * n + 6"
| "orank (O_Ctor i) n = 6 * n + 7 + 6 * (n - unat i)"

definition live :: "'a system \<Rightarrow> nat" where
  "live s = (if fault s = None then 1 else 0)"

definition pot :: "tid set \<Rightarrow> 'a system \<Rightarrow> nat" where
  "pot F s =
     orank (opc s) (unat (threads s)) + workers_rank s + frames_rank F s +
     9 * length (tasks s) + live s"

text \<open>The potential of a pool whose constructor is about to start its loop.\<close>

lemma pot_init: "pot F (ThreadPool_init n) = 12 * unat n + 8"
  by (simp add: pot_def workers_rank_def frames_rank_def frank_def live_def)

section \<open>A step of a worker\<close>

lemma worker_step_wrank_others:
  assumes "worker_step k s = Some s'" and "j \<noteq> k"
  shows "wrank s' j = wrank s j"
proof -
  have "condition s' = condition s \<or> condition s' = insert (Worker k) (condition s)"
    using assms(1) by (cases rule: worker_step_cases) auto
  with assms(2) worker_step_others [OF assms] show ?thesis
    by (auto simp: wrank_def)
qed

lemma worker_step_workers_rank:
  assumes "worker_step k s = Some s'"
  shows "workers_rank s' + wrank s k = workers_rank s + wrank s' k"
  unfolding workers_rank_def worker_step_length [OF assms]
  using worker_step_guard(2) [OF assms]
  by (intro sum_update) (simp_all add: worker_step_wrank_others [OF assms])

lemma worker_step_wrank:
  assumes step: "worker_step k s = Some s'"
  shows "wrank s' k + 9 * length (tasks s') + live s' < wrank s k + 9 * length (tasks s) + live s"
  using step worker_step_guard [OF step]
  by (cases rule: worker_step_cases)
     (auto simp: wrank_def live_def length_tl_Suc dest: length_tl_Suc)

lemma frames_rank_cong:
  assumes "frames s' = frames s"
  shows "frames_rank F s' = frames_rank F s"
  by (simp add: frames_rank_def frank_def assms)

lemma worker_step_pot:
  assumes "worker_step k s = Some s'"
  shows "pot F s' < pot F s"
  using worker_step_workers_rank [OF assms] worker_step_wrank [OF assms]
    frames_rank_cong [OF worker_step_frame(4) [OF assms], of F]
  by (simp add: pot_def worker_step_frame [OF assms])

section \<open>A statement of a call\<close>

lemma enqueue_step_frank_others:
  assumes "enqueue_step t w s = Some s'" and "u \<noteq> t"
  shows "frank s' u = frank s u"
  using enqueue_step_others [OF assms] by (simp add: frank_def)

lemma enqueue_step_frames_rank:
  assumes "enqueue_step t w s = Some s'" and "finite F" and "t \<in> F"
  shows "frames_rank F s' + frank s t = frames_rank F s + frank s' t"
  unfolding frames_rank_def using assms(2,3)
  by (rule sum_update) (simp add: enqueue_step_frank_others [OF assms(1)])

text \<open>\<^verbatim>\<open>notify_one\<close> wakes one worker; no other statement of a call changes what
  the workers can do.\<close>

lemma wake_one_workers_rank:
  assumes "k < length (workers s)" and "wpc (workers s ! k) = W_Wait"
    and "Worker k \<in> condition s"
  shows "workers_rank (put_frame t fr (s\<lparr>condition := condition s - {Worker k}\<rparr>)) =
    workers_rank s + 5"
proof -
  let ?s' = "put_frame t fr (s\<lparr>condition := condition s - {Worker k}\<rparr>)"
  have "workers_rank ?s' + wrank s k = workers_rank s + wrank ?s' k"
    unfolding workers_rank_def using assms(1)
    by (simp, intro sum_update) (auto simp: wrank_def)
  with assms show ?thesis by (simp add: wrank_def)
qed

lemma workers_rank_cong:
  assumes "workers s' = workers s" and "condition s' = condition s"
  shows "workers_rank s' = workers_rank s"
proof -
  have "wrank s' k = wrank s k" for k
    by (simp add: wrank_def assms)
  then show ?thesis
    by (simp add: workers_rank_def assms(1))
qed

lemma enqueue_step_pot:
  assumes step: "enqueue_step t w s = Some s'" and F: "finite F" "t \<in> F"
    and cond: "cond_inv s"
  shows "pot F s' < pot F s"
proof -
  note fr = enqueue_step_frames_rank [OF step F]
  note same = enqueue_step_frame(3,4) [OF step] enqueue_step_guard(1) [OF step]
  have quiet: "workers_rank s' = workers_rank s" if "condition s' = condition s"
    using enqueue_step_frame(1) [OF step] that by (rule workers_rank_cong)
  from step show ?thesis
  proof (cases rule: enqueue_step_cases)
    case (Notify_one fr')
    with cond_invD [OF cond, of w] have "workers_rank s' = workers_rank s + 5"
      by (simp add: wake_one_workers_rank)
    with Notify_one fr same show ?thesis
      by (simp add: pot_def frank_def live_def)
  next
    case (Fault fr')
    then have "frames s' = frames s" and "condition s' = condition s" by simp_all
    with Fault same quiet frames_rank_cong [of s' s F] show ?thesis
      by (simp add: pot_def live_def)
  qed (use fr same quiet in \<open>simp_all add: pot_def frank_def live_def egoto_def\<close>)
qed

section \<open>A statement of the owner\<close>

lemma spawn_workers_rank:
  "workers_rank (s\<lparr>workers := workers s @ [new_worker i], opc := pc\<rparr>) = workers_rank s + 5"
proof -
  let ?s' = "s\<lparr>workers := workers s @ [new_worker i], opc := pc\<rparr>"
  have "wrank ?s' k = wrank s k" if "k < length (workers s)" for k
    using that by (simp add: wrank_def nth_append)
  then have "(\<Sum>k < length (workers s). wrank ?s' k) = (\<Sum>k < length (workers s). wrank s k)"
    by (intro sum.cong) auto
  moreover have "wrank ?s' (length (workers s)) = 5"
    by (simp add: wrank_def new_worker_def)
  ultimately show ?thesis
    by (simp add: workers_rank_def)
qed

lemma wake_all_workers_rank:
  "workers_rank (s\<lparr>condition := {}, opc := pc\<rparr>) \<le> workers_rank s + 5 * length (workers s)"
proof -
  let ?s' = "s\<lparr>condition := {}, opc := pc\<rparr>"
  have "wrank ?s' k \<le> wrank s k + 5" for k
    by (simp add: wrank_def)
  then have "(\<Sum>k < length (workers s). wrank ?s' k)
      \<le> (\<Sum>k < length (workers s). wrank s k + 5)"
    by (intro sum_mono)
  then show ?thesis
    by (simp add: workers_rank_def sum.distrib)
qed

lemma owner_step_pot:
  assumes step: "owner_step s = Some s'" and ctor: "ctor_inv s"
  shows "pot F s' < pot F s"
proof -
  note same = owner_step_frame(1,3,4) [OF step] owner_step_guard(1) [OF step]
  have fr: "frames_rank F s' = frames_rank F s"
    using owner_step_frame(3) [OF step] by (rule frames_rank_cong)
  have quiet: "workers_rank s' = workers_rank s"
    if "workers s' = workers s" and "condition s' = condition s"
    using that by (rule workers_rank_cong)
  from ctor have len: "length (workers s) = unat (spawned (opc s) (threads s))"
    by (simp add: ctor_inv_def)
  from step show ?thesis
  proof (cases rule: owner_step_cases)
    case (Spawn i)
    then have "unat (i + 1) = Suc (unat i)" and "unat i < unat (threads s)"
      by (simp_all add: size_t_less_Suc word_less_nat_alt)
    with Spawn same fr show ?thesis
      by (simp add: pot_def live_def spawn_workers_rank)
  next
    case Notify_all
    with wake_all_workers_rank [where s = s and pc = "D_Join 0"] len same fr show ?thesis
      by (simp add: pot_def live_def)
  next
    case (Join k)
    with len same fr quiet show ?thesis
      by (simp add: pot_def live_def)
  next
    case Fault
    then have "workers s' = workers s" and "condition s' = condition s" by simp_all
    with Fault same fr quiet show ?thesis
      by (simp add: pot_def live_def)
  qed (use same fr quiet in \<open>simp_all add: pot_def live_def\<close>)
qed

section \<open>Schedules of a closed pool\<close>

text \<open>\<open>covers F s\<close>: the finite set \<open>F\<close> holds every thread that is inside
  \<^verbatim>\<open>enqueue\<close>.\<close>

definition covers :: "tid set \<Rightarrow> 'a system \<Rightarrow> bool" where
  "covers F s \<longleftrightarrow> finite F \<and> (\<forall>t. frames s t \<noteq> None \<longrightarrow> t \<in> F)"

lemma enqueue_step_callers:
  assumes "enqueue_step t w s = Some s'" and "frames s' u \<noteq> None"
  shows "frames s u \<noteq> None"
  using assms enqueue_step_others [OF assms(1), of u] enqueue_step_guard(3) [OF assms(1)]
  by (cases "u = t") auto

lemma fire_covers:
  assumes "fire e s = Some s'" and "internal e" and "covers F s"
  shows "covers F s'"
proof (cases e)
  case Ev_Owner
  with assms show ?thesis by (simp add: covers_def owner_step_frame)
next
  case (Ev_Worker k)
  with assms show ?thesis by (simp add: covers_def worker_step_frame)
next
  case (Ev_Enqueue t w)
  with assms show ?thesis by (auto simp: covers_def dest: enqueue_step_callers)
qed (use assms in simp_all)

lemma fire_pot:
  assumes "fire e s = Some s'" and "internal e" and "wf_pool s" and "covers F s"
  shows "pot F s' < pot F s"
proof (cases e)
  case Ev_Owner
  with assms show ?thesis by (simp add: owner_step_pot wf_pool_def)
next
  case (Ev_Worker k)
  with assms show ?thesis by (simp add: worker_step_pot)
next
  case (Ev_Enqueue t w)
  with assms have step: "enqueue_step t w s = Some s'" by simp
  from assms(4) enqueue_step_guard(3) [OF step] have "finite F" and "t \<in> F"
    by (auto simp: covers_def)
  with step show ?thesis
    using assms(3) by (intro enqueue_step_pot) (simp_all add: wf_pool_def)
qed (use assms in simp_all)

section \<open>A scheduler\<close>

text \<open>The statements that can be next, in a fixed order: the owner's, each
  worker's, and for each caller of the list its own with each choice of the
  worker that \<^verbatim>\<open>notify_one\<close> may wake.\<close>

definition candidates :: "tid list \<Rightarrow> 'a system \<Rightarrow> 'a event list" where
  "candidates ts s =
     Ev_Owner # map Ev_Worker [0..<length (workers s)] @
     concat (map (\<lambda>t. map (Ev_Enqueue t) [0..<Suc (length (workers s))]) ts)"

definition pick :: "tid list \<Rightarrow> 'a system \<Rightarrow> 'a event option" where
  "pick ts s = find (\<lambda>e. fire e s \<noteq> None) (candidates ts s)"

fun run :: "nat \<Rightarrow> tid list \<Rightarrow> 'a system \<Rightarrow> 'a system option" where
  "run 0 ts s = (case pick ts s of None \<Rightarrow> Some s | Some e \<Rightarrow> None)"
| "run (Suc n) ts s =
     (case pick ts s of
        None \<Rightarrow> Some s
      | Some e \<Rightarrow> (case fire e s of None \<Rightarrow> None | Some s' \<Rightarrow> run n ts s'))"

lemma candidates_internal: "e \<in> set (candidates ts s) \<Longrightarrow> internal e"
  by (auto simp: candidates_def)

lemma candidates_enqueue:
  "Ev_Enqueue t w \<in> set (candidates ts s) \<longleftrightarrow> t \<in> set ts \<and> w < Suc (length (workers s))"
  by (auto simp: candidates_def image_iff simp del: upt_Suc)

lemma candidates_worker:
  "Ev_Worker k \<in> set (candidates ts s) \<longleftrightarrow> k < length (workers s)"
  by (auto simp: candidates_def)

lemma pick_Some:
  assumes "pick ts s = Some e"
  shows "internal e" and "\<exists>s'. fire e s = Some s'"
  using assms by (auto simp: pick_def find_Some_iff intro: candidates_internal nth_mem)

text \<open>The scheduler finds a statement whenever there is one.\<close>

lemma pick_None:
  assumes none: "pick ts s = None" and cov: "\<forall>t. frames s t \<noteq> None \<longrightarrow> t \<in> set ts"
    and cond: "cond_inv s"
  shows "\<not> can_move s"
proof
  assume "can_move s"
  then obtain e where i: "internal e" and en: "fire e s \<noteq> None"
    by (auto simp: can_move_def)
  from none have blocked: "\<And>e. e \<in> set (candidates ts s) \<Longrightarrow> fire e s = None"
    by (auto simp: pick_def find_None_iff)
  show False
  proof (cases e)
    case Ev_Owner
    with en blocked [of Ev_Owner] show ?thesis by (simp add: candidates_def)
  next
    case (Ev_Worker k)
    with en have "k < length (workers s)"
      by (auto simp: worker_step_None_iff)
    with Ev_Worker en blocked [of "Ev_Worker k"] show ?thesis
      by (simp add: candidates_worker)
  next
    case (Ev_Enqueue t w)
    with en have step: "enqueue_step t w s \<noteq> None" by simp
    then have t: "t \<in> set ts"
      using cov by (auto simp: enqueue_step_None_iff split: option.splits)
    define w' where "w' = (if w < Suc (length (workers s)) then w else 0)"
    have "enqueue_step t w' s \<noteq> None"
      using step cond_invD(1) [OF cond, of w]
      by (auto simp: enqueue_step_None_iff w'_def split: option.splits)
    moreover have "w' < Suc (length (workers s))"
      by (simp add: w'_def)
    ultimately show ?thesis
      using t blocked [of "Ev_Enqueue t w'"] by (simp add: candidates_enqueue)
  qed (use i in simp_all)
qed

section \<open>Running the pool to its end\<close>

text \<open>\<open>run n ts s\<close> lets the scheduler choose at most \<open>n\<close> statements from \<open>s\<close>
  and returns the state in which none is left; it is \<open>None\<close> when \<open>n\<close> statements
  were not enough.\<close>

lemma run_Some:
  assumes "run n ts s = Some s'"
  shows "\<exists>es. length es \<le> n \<and> list_all internal es \<and> exec es s = Some s' \<and>
    pick ts s' = None"
  using assms
proof (induction n arbitrary: s)
  case 0
  then have "pick ts s = None" and "s' = s"
    by (auto split: option.splits)
  then show ?case by (intro exI [of _ "[]"]) simp
next
  case (Suc n)
  show ?case
  proof (cases "pick ts s")
    case None
    with Suc.prems show ?thesis by (intro exI [of _ "[]"]) simp
  next
    case (Some e)
    with Suc.prems obtain s1 where e: "fire e s = Some s1" and r: "run n ts s1 = Some s'"
      by (auto split: option.splits)
    from Suc.IH [OF r] obtain es where "length es \<le> n" and "list_all internal es"
      and "exec es s1 = Some s'" and "pick ts s' = None"
      by blast
    with e pick_Some(1) [OF Some] show ?thesis
      by (intro exI [of _ "e # es"]) simp
  qed
qed

lemma exec_covers:
  assumes "exec es s = Some s'" and "list_all internal es" and "covers F s"
  shows "covers F s'"
  using assms by (rule exec_invariant) (rule fire_covers)

text \<open>The potential is enough fuel.\<close>

lemma run_total:
  assumes "wf_pool s" and "covers (set ts) s" and "pot (set ts) s \<le> n"
  shows "\<exists>s'. run n ts s = Some s'"
  using assms
proof (induction n arbitrary: s)
  case 0
  show ?case
  proof (cases "pick ts s")
    case (Some e)
    from pick_Some [OF Some] obtain s1 where "internal e" and "fire e s = Some s1"
      by blast
    from fire_pot [OF this(2,1) 0(1,2)] 0(3) show ?thesis by simp
  qed simp
next
  case (Suc n)
  show ?case
  proof (cases "pick ts s")
    case (Some e)
    from pick_Some [OF Some] obtain s1 where i: "internal e" and e: "fire e s = Some s1"
      by blast
    from fire_pot [OF e i Suc.prems(1,2)] Suc.prems(3) have "pot (set ts) s1 \<le> n"
      by simp
    with wf_pool_step [OF fire_step [OF e] Suc.prems(1)] fire_covers [OF e i Suc.prems(2)]
    have "\<exists>s'. run n ts s1 = Some s'"
      by (rule Suc.IH)
    with Some e show ?thesis by simp
  qed simp
qed

text \<open>Where the scheduler stops, no thread has a statement left: the
  destructor has returned or a task has thrown.\<close>

lemma run_stuck:
  assumes r: "reachable s" and c: "covers (set ts) s" and run: "run n ts s = Some s'"
  shows "\<exists>es. list_all internal es \<and> exec es s = Some s' \<and> \<not> can_move s'"
proof -
  from run_Some [OF run] obtain es where i: "list_all internal es"
    and es: "exec es s = Some s'" and p: "pick ts s' = None"
    by blast
  from r es have r': "reachable s'"
    by (rule exec_reachable)
  from exec_covers [OF es i c] have "\<forall>t. frames s' t \<noteq> None \<longrightarrow> t \<in> set ts"
    by (simp add: covers_def)
  with p have "\<not> can_move s'"
    using reachable_cond_inv [OF r'] by (rule pick_None)
  with i es show ?thesis by blast
qed

lemma run_final:
  assumes r: "reachable s" and c: "covers (set ts) s" and run: "run n ts s = Some s'"
  shows "reachable s' \<and> (fault s' \<noteq> None \<or> opc s' = D_Done)"
proof -
  from run_stuck [OF assms] obtain es where es: "exec es s = Some s'"
    and stuck: "\<not> can_move s'"
    by blast
  from r es have "reachable s'"
    by (rule exec_reachable)
  with stuck reachable_can_move show ?thesis
    by blast
qed

section \<open>Well-behaved tasks\<close>

text \<open>Every task the pool has accepted, and every task a caller inside
  \<^verbatim>\<open>enqueue\<close> is about to hand over, returns from its call.\<close>

definition all_well_behaved :: "'a system \<Rightarrow> bool" where
  "all_well_behaved s \<longleftrightarrow>
     list_all well_behaved (accepted s) \<and>
     (\<forall>t fr. frames s t = Some fr \<longrightarrow> well_behaved (farg fr))"

lemma fire_all_well_behaved:
  assumes "fire e s = Some s'" and "internal e" and "all_well_behaved s"
  shows "all_well_behaved s'"
proof (cases e)
  case Ev_Owner
  with assms show ?thesis by (simp add: all_well_behaved_def owner_step_frame)
next
  case (Ev_Worker k)
  with assms show ?thesis by (simp add: all_well_behaved_def worker_step_frame)
next
  case (Ev_Enqueue t w)
  with assms(1) have "enqueue_step t w s = Some s'" by simp
  then show ?thesis
    using assms(3)
    by (cases rule: enqueue_step_cases) (auto simp: all_well_behaved_def)
qed (use assms in simp_all)

lemma exec_all_well_behaved:
  assumes "exec es s = Some s'" and "list_all internal es" and "all_well_behaved s"
  shows "all_well_behaved s'"
  using assms by (rule exec_invariant) (rule fire_all_well_behaved)

text \<open>What has been accepted stays accepted.\<close>

lemma fire_accepted:
  assumes "fire e s = Some s'"
  shows "set (accepted s) \<subseteq> set (accepted s')"
proof (cases e)
  case Ev_Owner
  with assms show ?thesis by (simp add: owner_step_frame)
next
  case (Ev_Worker k)
  with assms show ?thesis by (simp add: worker_step_frame)
next
  case (Ev_Spurious k)
  with assms show ?thesis by (auto dest: spurious_wakeup_frame)
next
  case (Ev_Call t f)
  with assms show ?thesis by (auto elim!: enqueue_callE)
next
  case (Ev_Enqueue t w)
  with assms have "enqueue_step t w s = Some s'" by simp
  then show ?thesis by (cases rule: enqueue_step_cases) auto
qed

lemma exec_accepted:
  assumes "exec es s = Some s'"
  shows "set (accepted s) \<subseteq> set (accepted s')"
  using assms
  by (rule exec_invariant [where Q = "\<lambda>_. True"
        and P = "\<lambda>x. set (accepted s) \<subseteq> set (accepted x)"])
     (auto simp: list_all_iff dest: fire_accepted)

section \<open>Where a run can stop\<close>

text \<open>The threads of a closed pool are stuck exactly when there is a fault or
  the destructor has returned.\<close>

lemma stuck_can_move:
  assumes "reachable s" and "fault s \<noteq> None \<or> opc s = D_Done"
  shows "\<not> can_move s"
proof
  assume "can_move s"
  then obtain e where "internal e" and "fire e s \<noteq> None"
    by (auto simp: can_move_def)
  then show False
    using assms done_all_exited [OF assms(1)]
    by (cases e)
       (auto simp: owner_step_None_iff worker_step_None_iff enqueue_step_None_iff not_le)
qed

lemma reachable_can_move_iff:
  assumes "reachable s"
  shows "can_move s \<longleftrightarrow> fault s = None \<and> opc s \<noteq> D_Done"
  using reachable_can_move [OF assms] stuck_can_move [OF assms] by blast

text \<open>A pool of well-behaved tasks that is stuck has called every task.\<close>

lemma stuck_drained:
  assumes r: "reachable s" and stuck: "\<not> can_move s"
    and w: "list_all well_behaved (accepted s)" and n: "threads s \<noteq> 0"
  shows "opc s = D_Done \<and> tasks s = [] \<and> mset (map snd (started s)) = mset (accepted s)"
proof -
  from r w have "fault s = None"
    using reachable_fault_inv well_behaved_not_thrown by (auto simp: fault_inv_def)
  with stuck reachable_can_move [OF r] have d: "opc s = D_Done"
    by blast
  with reachable_accounting [OF r] done_tasks_empty [OF r d n] done_inflight [OF r d]
  show ?thesis by simp
qed

text \<open>So does a pool that has run from a state of well-behaved tasks until it
  is stuck, whatever the order of the statements was.\<close>

lemma exec_stuck_drained:
  assumes "reachable s" and "all_well_behaved s" and "threads s \<noteq> 0"
    and "exec es s = Some s'" and "list_all internal es" and "\<not> can_move s'"
  shows "opc s' = D_Done \<and> tasks s' = [] \<and> set (accepted s) \<subseteq> set (accepted s') \<and>
    mset (map snd (started s')) = mset (accepted s')"
proof -
  from exec_all_well_behaved [OF assms(4,5,2)] have "list_all well_behaved (accepted s')"
    by (simp add: all_well_behaved_def)
  with exec_reachable [OF assms(1,4)] assms(6)
  have "opc s' = D_Done \<and> tasks s' = [] \<and> mset (map snd (started s')) = mset (accepted s')"
    by (rule stuck_drained) (simp add: exec_threads [OF assms(4)] assms(3))
  with exec_accepted [OF assms(4)] show ?thesis by simp
qed

section \<open>Runs with new calls\<close>

text \<open>A new call of \<^verbatim>\<open>enqueue\<close> adds to the potential what the call can do, 20
  statements; with the entry itself a call costs 21. So a run without spurious
  wake-ups is bounded by the potential it starts with and the number of calls
  made on the way. \<open>admitted F e\<close>: \<open>e\<close> is not a spurious wake-up, and not a
  call of a thread outside \<open>F\<close>.\<close>

fun cost :: "'a event \<Rightarrow> nat" where
  "cost (Ev_Call t f) = 21"
| "cost _ = 0"

fun admitted :: "tid set \<Rightarrow> 'a event \<Rightarrow> bool" where
  "admitted F (Ev_Call t f) \<longleftrightarrow> t \<in> F"
| "admitted F (Ev_Spurious k) \<longleftrightarrow> False"
| "admitted F _ \<longleftrightarrow> True"

lemma call_pot:
  assumes "enqueue_call t f s = Some s'" and "finite F" and "t \<in> F"
  shows "pot F s' = pot F s + 20"
proof -
  from assms(1) have s': "s' = put_frame t (Some \<lparr>epc = E_Lock, farg = f\<rparr>) s"
    and none: "frames s t = None"
    by (auto elim: enqueue_callE)
  have "frames_rank F s' + frank s t = frames_rank F s + frank s' t"
    unfolding frames_rank_def using assms(2,3)
    by (rule sum_update) (simp add: s' frank_def)
  moreover have "workers_rank s' = workers_rank s"
    by (rule workers_rank_cong) (simp_all add: s')
  ultimately show ?thesis
    using none by (simp add: pot_def s' frank_def live_def)
qed

lemma call_covers:
  assumes "enqueue_call t f s = Some s'" and "t \<in> F" and "covers F s"
  shows "covers F s'"
  using assms by (auto elim!: enqueue_callE simp: covers_def split: if_splits)

lemma fire_admitted:
  assumes "fire e s = Some s'" and "admitted F e" and "wf_pool s" and "covers F s"
  shows "Suc (pot F s') \<le> pot F s + cost e" and "covers F s'"
proof -
  show "Suc (pot F s') \<le> pot F s + cost e"
  proof (cases e)
    case (Ev_Call t f)
    with assms call_pot [of t f s s' F] show ?thesis by (simp add: covers_def)
  next
    case (Ev_Spurious k)
    with assms(2) show ?thesis by simp
  qed (use fire_pot [OF assms(1) _ assms(3,4)] in simp_all)
  show "covers F s'"
  proof (cases e)
    case (Ev_Call t f)
    with assms call_covers [of t f s s' F] show ?thesis by simp
  next
    case (Ev_Spurious k)
    with assms(2) show ?thesis by simp
  qed (use fire_covers [OF assms(1) _ assms(4)] in simp_all)
qed

lemma exec_admitted:
  assumes "exec es s = Some s'" and "list_all (admitted F) es" and "wf_pool s"
    and "covers F s"
  shows "length es + pot F s' \<le> pot F s + sum_list (map cost es)"
  using assms
proof (induction es arbitrary: s)
  case Nil
  then show ?case by simp
next
  case (Cons e es)
  from Cons.prems(1) obtain s1 where e: "fire e s = Some s1" and es: "exec es s1 = Some s'"
    by (auto split: option.splits)
  from Cons.prems(2) have a: "admitted F e" and rest: "list_all (admitted F) es"
    by simp_all
  have "length es + pot F s' \<le> pot F s1 + sum_list (map cost es)"
    using es rest wf_pool_step [OF fire_step [OF e] Cons.prems(3)]
      fire_admitted(2) [OF e a Cons.prems(3,4)]
    by (rule Cons.IH)
  with fire_admitted(1) [OF e a Cons.prems(3,4)] show ?case
    by simp
qed

text \<open>Without new calls, no schedule of statements is longer than the potential
  it starts with.\<close>

lemma internal_admitted: "internal e \<Longrightarrow> admitted F e \<and> cost e = 0"
  by (cases e) simp_all

lemma exec_pot:
  assumes "exec es s = Some s'" and "list_all internal es" and "wf_pool s" and "covers F s"
  shows "length es + pot F s' \<le> pot F s"
proof -
  from assms(2) have "list_all (admitted F) es" and "sum_list (map cost es) = 0"
    by (auto simp: list_all_iff internal_admitted)
  with exec_admitted [OF assms(1) this(1) assms(3,4)] show ?thesis
    by simp
qed

end
