(* ===== verification/Scenarios.thy ===== *)
theory Scenarios
  imports Termination
begin

text \<open>
  Concrete runs of the pool, as schedules for \<open>exec\<close>, and the states they end
  in. They are the inputs at which the theorems of the development are applied,
  and the evidence for what a pool can do that its documentation does not say.
  The label of a task is a number; \<open>T n\<close> returns on every worker, \<open>Bad\<close> throws.
  All runs but \<open>st_zero\<close> are runs of a pool of one thread.
  One state is also run to its end by the scheduler of \<open>Termination\<close>.
\<close>

section \<open>Tasks\<close>

definition T :: "nat \<Rightarrow> nat task" where
  "T n = Task n (\<lambda>i. Returns)"

definition Bad :: "nat task" where
  "Bad = Task 0 (\<lambda>i. Throws)"

lemma invoke_T [simp]: "invoke (T n) i = Returns"
  by (simp add: T_def invoke_def)

lemma invoke_Bad [simp]: "invoke Bad i = Throws"
  by (simp add: Bad_def invoke_def)

lemma T_eq_iff [simp]: "T m = T n \<longleftrightarrow> m = n"
  by (simp add: T_def)

lemma well_behaved_T [simp]: "well_behaved (T n)"
  by (simp add: well_behaved_def)

section \<open>Pieces of a schedule\<close>

text \<open>The owner runs the constructor of a pool of one thread (one worker
  started, then the end of the loop).\<close>

definition sched_ctor :: "nat event list" where
  "sched_ctor = [Ev_Owner, Ev_Owner]"

text \<open>Worker 0 locks, finds the queue empty and goes to sleep.\<close>

definition sched_sleep :: "nat event list" where
  "sched_sleep = [Ev_Worker 0, Ev_Worker 0, Ev_Worker 0]"

text \<open>Client 0 calls \<^verbatim>\<open>enqueue(f)\<close> and has locked, tested \<open>stop\<close> and emplaced.\<close>

definition sched_emplace :: "nat task \<Rightarrow> nat event list" where
  "sched_emplace f =
     [Ev_Call (Client 0) f, Ev_Enqueue (Client 0) 0, Ev_Enqueue (Client 0) 0,
      Ev_Enqueue (Client 0) 0]"

text \<open>The rest of the call: the counter, the unlock, and the wake-up of worker 0.\<close>

definition sched_notify :: "nat event list" where
  "sched_notify = [Ev_Enqueue (Client 0) 0, Ev_Enqueue (Client 0) 0, Ev_Enqueue (Client 0) 0]"

text \<open>Worker 0 wakes up, takes the front task, unlocks, calls the task and
  comes back from it: nine statements.\<close>

definition sched_work :: "nat event list" where
  "sched_work =
     [Ev_Worker 0, Ev_Worker 0, Ev_Worker 0, Ev_Worker 0, Ev_Worker 0, Ev_Worker 0,
      Ev_Worker 0, Ev_Worker 0, Ev_Worker 0]"

text \<open>The owner enters the destructor and runs it up to the first \<^verbatim>\<open>join\<close>.\<close>

definition sched_destroy :: "nat event list" where
  "sched_destroy = [Ev_Owner, Ev_Owner, Ev_Owner, Ev_Owner, Ev_Owner]"

text \<open>Worker 0 locks, sees \<open>stop\<close> and an empty queue, and leaves; the owner joins
  it and the destructor returns.\<close>

definition sched_exit :: "nat event list" where
  "sched_exit = [Ev_Worker 0, Ev_Worker 0, Ev_Worker 0, Ev_Owner, Ev_Owner]"

lemmas sched_defs =
  sched_ctor_def sched_sleep_def sched_emplace_def sched_notify_def sched_work_def
  sched_destroy_def sched_exit_def

section \<open>A call between the queue and the counter\<close>

definition st_emplaced :: "nat system" where
  "st_emplaced =
     the (exec (sched_ctor @ sched_sleep @ sched_emplace (T 1)) (ThreadPool_init 1))"

lemma st_emplaced_exec:
  "exec (sched_ctor @ sched_sleep @ sched_emplace (T 1)) (ThreadPool_init 1) = Some st_emplaced"
  by (simp add: st_emplaced_def sched_defs pool_steps pool_ops)

lemma st_emplaced_reachable: "reachable st_emplaced"
  by (rule exec_init_reachable [OF st_emplaced_exec])

lemma st_emplaced_fields:
  "queue_mutex st_emplaced = Some (Client 0)"
  "tasks st_emplaced = [T 1]"
  "task_queue_size st_emplaced = 0"
  "accepted st_emplaced = [T 1]"
  "dequeued st_emplaced = []"
  "started st_emplaced = []"
  "workers st_emplaced = [\<lparr>wpc = W_Wait, wid = 0, wtask = None\<rparr>]"
  "frames st_emplaced (Client 0) = Some \<lparr>epc = E_Inc, farg = T 1\<rparr>"
  "opc st_emplaced = O_Live"
  "fault st_emplaced = None"
  "condition st_emplaced = {Worker 0}"
  "stop st_emplaced = False"
  by (simp_all add: st_emplaced_def sched_defs pool_steps pool_ops)

text \<open>From here the scheduler of \<open>Termination\<close> runs the pool to its end with
  Client 0 as the only caller: the owner goes first and enters the destructor
  at once, yet the task is called before the pool is gone. The caller is still
  before its \<^verbatim>\<open>notify_one\<close> when the destructor returns.\<close>

lemma st_emplaced_frames:
  "frames st_emplaced = (\<lambda>_. None)(Client 0 \<mapsto> \<lparr>epc = E_Inc, farg = T 1\<rparr>)"
  by (simp add: st_emplaced_def sched_defs pool_steps pool_ops)

lemma st_emplaced_threads: "threads st_emplaced = 1"
  by (simp add: st_emplaced_def sched_defs pool_steps pool_ops)

lemma st_emplaced_covers: "covers {Client 0} st_emplaced"
  by (simp add: covers_def st_emplaced_frames)

lemma st_emplaced_pot: "pot {Client 0} st_emplaced = 30"
  by (simp add: pot_def workers_rank_def wrank_def frames_rank_def frank_def live_def
      st_emplaced_fields st_emplaced_threads)

lemma st_emplaced_well_behaved: "all_well_behaved st_emplaced"
  by (simp add: all_well_behaved_def st_emplaced_fields st_emplaced_frames)

lemma st_emplaced_eq:
  "st_emplaced =
     ThreadPool_init 1
       \<lparr>opc := O_Live, condition := {Worker 0},
        workers := [\<lparr>wpc = W_Wait, wid = 0, wtask = None\<rparr>],
        queue_mutex := Some (Client 0), tasks := [T 1], accepted := [T 1],
        frames := (\<lambda>_. None)(Client 0 \<mapsto> \<lparr>epc = E_Inc, farg = T 1\<rparr>)\<rparr>"
  by (simp add: st_emplaced_def sched_defs pool_steps pool_ops)

lemma st_emplaced_run:
  "\<exists>s. run 30 [Client 0] st_emplaced = Some s \<and> started s = [(0, T 1)] \<and>
     opc s = D_Done \<and> frames s (Client 0) = Some \<lparr>epc = E_Notify, farg = T 1\<rparr>"
  by (simp add: st_emplaced_eq pool_steps pool_ops pick_def candidates_def eval_nat_numeral)

section \<open>A task in the queue and an idle worker\<close>

text \<open>Client 0 has completed a call of \<^verbatim>\<open>enqueue\<close> before worker 0 has made its
  first step.\<close>

definition st_queued :: "nat system" where
  "st_queued = the (exec (sched_ctor @ sched_emplace (T 1) @ sched_notify) (ThreadPool_init 1))"

lemma st_queued_exec:
  "exec (sched_ctor @ sched_emplace (T 1) @ sched_notify) (ThreadPool_init 1) = Some st_queued"
  by (simp add: st_queued_def sched_defs pool_steps pool_ops)

lemma st_queued_reachable: "reachable st_queued"
  by (rule exec_init_reachable [OF st_queued_exec])

lemma st_queued_fields:
  "queue_mutex st_queued = None"
  "tasks st_queued = [T 1]"
  "task_queue_size st_queued = 1"
  "dequeued st_queued = []"
  "started st_queued = []"
  "workers st_queued = [\<lparr>wpc = W_Lock, wid = 0, wtask = None\<rparr>]"
  "condition st_queued = {}"
  "fault st_queued = None"
  "frames st_queued (Client 0) = None"
  "opc st_queued = O_Live"
  "stop st_queued = False"
  by (simp_all add: st_queued_def sched_defs pool_steps pool_ops)

lemma st_queued_frames: "frames st_queued = (\<lambda>_. None)"
  by (simp add: st_queued_def sched_defs pool_steps pool_ops)

lemma st_queued_accepted: "accepted st_queued = [T 1]"
  by (simp add: st_queued_def sched_defs pool_steps pool_ops)

lemma st_queued_well_behaved: "all_well_behaved st_queued"
  by (simp add: all_well_behaved_def st_queued_frames st_queued_accepted)

lemma st_queued_threads: "threads st_queued = 1"
  by (simp add: st_queued_def sched_defs pool_steps pool_ops)

lemma st_queued_covers: "covers {} st_queued"
  by (simp add: covers_def st_queued_frames)

lemma st_queued_pot: "pot {} st_queued = 27"
  by (simp add: pot_def workers_rank_def wrank_def frames_rank_def live_def
      st_queued_fields st_queued_threads)

section \<open>One task from submission to the end of the pool\<close>

definition sched_full :: "nat event list" where
  "sched_full =
     sched_ctor @ sched_sleep @ sched_emplace (T 1) @ sched_notify @ sched_work @
     sched_destroy @ sched_exit"

definition st_final :: "nat system" where
  "st_final = the (exec sched_full (ThreadPool_init 1))"

lemma st_final_exec: "exec sched_full (ThreadPool_init 1) = Some st_final"
  by (simp add: st_final_def sched_full_def sched_defs pool_steps pool_ops)

lemma st_final_reachable: "reachable st_final"
  by (rule exec_init_reachable [OF st_final_exec])

lemma st_final_fields:
  "opc st_final = D_Done"
  "threads st_final = 1"
  "queue_mutex st_final = None"
  "tasks st_final = []"
  "task_queue_size st_final = 0"
  "stop st_final"
  "accepted st_final = [T 1]"
  "dequeued st_final = [T 1]"
  "started st_final = [(0, T 1)]"
  "workers st_final = [\<lparr>wpc = W_Exited, wid = 0, wtask = None\<rparr>]"
  "fault st_final = None"
  by (simp_all add: st_final_def sched_full_def sched_defs pool_steps pool_ops)

text \<open>The same end from \<open>st_queued\<close>, in nineteen statements of the worker
  and the owner.\<close>

definition sched_drain :: "nat event list" where
  "sched_drain = sched_work @ sched_destroy @ sched_exit"

definition st_drained :: "nat system" where
  "st_drained = the (exec sched_drain st_queued)"

lemma st_drained_exec: "exec sched_drain st_queued = Some st_drained"
  by (simp add: st_drained_def st_queued_def sched_drain_def sched_defs pool_steps pool_ops)

lemma sched_drain_internal: "list_all internal sched_drain" "length sched_drain = 19"
  by (simp_all add: sched_drain_def sched_defs)

lemma st_drained_fields:
  "opc st_drained = D_Done" "fault st_drained = None" "accepted st_drained = [T 1]"
  "started st_drained = [(0, T 1)]" "tasks st_drained = []"
  by (simp_all add: st_drained_def st_queued_def sched_drain_def sched_defs pool_steps pool_ops)

lemma st_drained_reachable: "reachable st_drained"
  using st_queued_reachable st_drained_exec by (rule exec_reachable)

lemma st_drained_stuck: "\<not> can_move st_drained"
  using st_drained_reachable by (rule stuck_can_move) (simp add: st_drained_fields)

text \<open>The run to \<open>st_final\<close> has 31 statements, one of them a call of
  \<^verbatim>\<open>enqueue\<close>.\<close>

lemma sched_full_cost:
  "list_all (admitted {Client 0}) sched_full" "length sched_full = 31"
  "sum_list (map cost sched_full) = 21"
  by (simp_all add: sched_full_def sched_defs)

section \<open>Three tasks and one worker\<close>

text \<open>Client 0 submits \<open>T 1\<close>, \<open>T 2\<close> and \<open>T 3\<close> to a pool of one thread before the
  worker has moved; the worker then takes and calls them one after the other,
  and the pool is destroyed.\<close>

definition sched_three :: "nat event list" where
  "sched_three =
     sched_ctor @ sched_emplace (T 1) @ sched_notify @ sched_emplace (T 2) @ sched_notify @
     sched_emplace (T 3) @ sched_notify @ sched_work @ sched_work @ sched_work @
     sched_destroy @ sched_exit"

definition st_three :: "nat system" where
  "st_three = the (exec sched_three (ThreadPool_init 1))"

lemma st_three_exec: "exec sched_three (ThreadPool_init 1) = Some st_three"
  by (simp add: st_three_def sched_three_def sched_defs pool_steps pool_ops)

lemma st_three_reachable: "reachable st_three"
  by (rule exec_init_reachable [OF st_three_exec])

lemma st_three_fields:
  "opc st_three = D_Done"
  "threads st_three = 1"
  "tasks st_three = []"
  "accepted st_three = [T 1, T 2, T 3]"
  "started st_three = [(0, T 1), (0, T 2), (0, T 3)]"
  "task_queue_size st_three = 0"
  "fault st_three = None"
  by (simp_all add: st_three_def sched_three_def sched_defs pool_steps pool_ops)

section \<open>A call on a stopped pool\<close>

text \<open>The destructor has set \<open>stop\<close> and is waiting for worker 0; client 0 calls
  \<^verbatim>\<open>enqueue\<close> and has taken the lock (\<open>st_late\<close>); its next statement is the
  test of line 71, which throws (\<open>st_rejected\<close>).\<close>

definition sched_late :: "nat event list" where
  "sched_late =
     sched_ctor @ sched_sleep @ sched_destroy @
     [Ev_Call (Client 0) (T 2), Ev_Enqueue (Client 0) 0]"

definition st_late :: "nat system" where
  "st_late = the (exec sched_late (ThreadPool_init 1))"

definition st_rejected :: "nat system" where
  "st_rejected = the (enqueue_step (Client 0) 0 st_late)"

lemma st_late_exec: "exec sched_late (ThreadPool_init 1) = Some st_late"
  by (simp add: st_late_def sched_late_def sched_defs pool_steps pool_ops)

lemma st_late_reachable: "reachable st_late"
  by (rule exec_init_reachable [OF st_late_exec])

lemma st_late_fields:
  "stop st_late"
  "queue_mutex st_late = Some (Client 0)"
  "frames st_late (Client 0) = Some \<lparr>epc = E_Check, farg = T 2\<rparr>"
  "accepted st_late = []"
  "rejected st_late = []"
  "opc st_late = D_Join 0"
  "fault st_late = None"
  "tasks st_late = []"
  "task_queue_size st_late = 0"
  "condition st_late = {}"
  "workers st_late = [\<lparr>wpc = W_Wait, wid = 0, wtask = None\<rparr>]"
  by (simp_all add: st_late_def sched_late_def sched_defs pool_steps pool_ops)

lemma st_late_step: "enqueue_step (Client 0) 0 st_late = Some st_rejected"
  by (simp add: st_rejected_def enqueue_step_def e_check_def st_late_fields)

lemma st_rejected_fields:
  "accepted st_rejected = []"
  "tasks st_rejected = []"
  "task_queue_size st_rejected = 0"
  "stop st_rejected"
  "rejected st_rejected = [(Client 0, T 2)]"
  "queue_mutex st_rejected = None"
  "frames st_rejected (Client 0) = None"
  "condition st_rejected = {}"
  "workers st_rejected = [\<lparr>wpc = W_Wait, wid = 0, wtask = None\<rparr>]"
  "fault st_rejected = None"
  "opc st_rejected = D_Join 0"
  by (simp_all add: st_rejected_def enqueue_step_def e_check_def st_late_fields put_frame_def)

lemma st_rejected_reachable: "reachable st_rejected"
  using st_late_reachable step.enqueue [OF st_late_step] by (rule reachable.step)

text \<open>Worker 0, woken by \<^verbatim>\<open>notify_all\<close>, returns from \<^verbatim>\<open>wait\<close> with the lock.\<close>

definition st_resumed :: "nat system" where
  "st_resumed = the (worker_step 0 st_rejected)"

lemma st_rejected_step: "worker_step 0 st_rejected = Some st_resumed"
  by (simp add: st_resumed_def worker_step_def w_resume_def cv_resume_def st_rejected_fields)

lemma st_resumed_fields:
  "queue_mutex st_resumed = Some (Worker 0)"
  "tasks st_resumed = []"
  "task_queue_size st_resumed = 0"
  "stop st_resumed"
  by (simp_all add: st_resumed_def worker_step_def w_resume_def cv_resume_def
      st_rejected_fields)

section \<open>A call while the destructor starts\<close>

text \<open>The owner has entered the destructor but not yet taken the lock; a call
  of \<^verbatim>\<open>enqueue\<close> made now is accepted.\<close>

definition st_race :: "nat system" where
  "st_race =
     the (exec (sched_ctor @ [Ev_Owner] @ sched_emplace (T 1) @ sched_notify)
            (ThreadPool_init 1))"

lemma st_race_exec:
  "exec (sched_ctor @ [Ev_Owner] @ sched_emplace (T 1) @ sched_notify) (ThreadPool_init 1) =
     Some st_race"
  by (simp add: st_race_def sched_defs pool_steps pool_ops)

lemma st_race_reachable: "reachable st_race"
  by (rule exec_init_reachable [OF st_race_exec])

lemma st_race_fields:
  "opc st_race = D_Lock"
  "stop st_race = False"
  "accepted st_race = [T 1]"
  "rejected st_race = []"
  "tasks st_race = [T 1]"
  by (simp_all add: st_race_def sched_defs pool_steps pool_ops)

section \<open>A task that throws\<close>

definition sched_throw :: "nat event list" where
  "sched_throw = sched_ctor @ sched_sleep @ sched_emplace Bad @ sched_notify @ sched_work"

definition st_thrown :: "nat system" where
  "st_thrown = the (exec sched_throw (ThreadPool_init 1))"

lemma st_thrown_exec: "exec sched_throw (ThreadPool_init 1) = Some st_thrown"
  by (simp add: st_thrown_def sched_throw_def sched_defs pool_steps pool_ops)

lemma st_thrown_reachable: "reachable st_thrown"
  by (rule exec_init_reachable [OF st_thrown_exec])

lemma st_thrown_fields:
  "fault st_thrown = Some Terminate"
  "started st_thrown = [(0, Bad)]"
  "accepted st_thrown = [Bad]"
  by (simp_all add: st_thrown_def sched_throw_def sched_defs pool_steps pool_ops)

section \<open>A pool of no threads\<close>

text \<open>The constructor accepts \<open>threads = 0\<close>. Such a pool accepts a task like any
  other, and its destructor returns with the task still in the queue.\<close>

definition sched_zero :: "nat event list" where
  "sched_zero = [Ev_Owner] @ sched_emplace (T 1) @ sched_notify @ sched_destroy @ [Ev_Owner]"

definition st_zero :: "nat system" where
  "st_zero = the (exec sched_zero (ThreadPool_init 0))"

lemma st_zero_exec: "exec sched_zero (ThreadPool_init 0) = Some st_zero"
  by (simp add: st_zero_def sched_zero_def sched_defs pool_steps pool_ops)

lemma st_zero_reachable: "reachable st_zero"
  by (rule exec_init_reachable [OF st_zero_exec])

lemma st_zero_fields:
  "opc st_zero = D_Done"
  "threads st_zero = 0"
  "workers st_zero = []"
  "queue_mutex st_zero = None"
  "tasks st_zero = [T 1]"
  "task_queue_size st_zero = 1"
  "accepted st_zero = [T 1]"
  "started st_zero = []"
  "rejected st_zero = []"
  "fault st_zero = None"
  by (simp_all add: st_zero_def sched_zero_def sched_defs pool_steps pool_ops)

section \<open>A call that outlives the pool\<close>

text \<open>Client 0 has entered \<^verbatim>\<open>enqueue\<close> but not yet reached the lock when the
  owner destroys the pool. The destructor does not wait for it.\<close>

definition sched_dangling :: "nat event list" where
  "sched_dangling = sched_ctor @ [Ev_Call (Client 0) (T 1)] @ sched_destroy @ sched_exit"

definition st_dangling :: "nat system" where
  "st_dangling = the (exec sched_dangling (ThreadPool_init 1))"

lemma st_dangling_exec: "exec sched_dangling (ThreadPool_init 1) = Some st_dangling"
  by (simp add: st_dangling_def sched_dangling_def sched_defs pool_steps pool_ops)

lemma st_dangling_reachable: "reachable st_dangling"
  by (rule exec_init_reachable [OF st_dangling_exec])

lemma st_dangling_fields:
  "opc st_dangling = D_Done"
  "frames st_dangling (Client 0) = Some \<lparr>epc = E_Lock, farg = T 1\<rparr>"
  "workers st_dangling = [\<lparr>wpc = W_Exited, wid = 0, wtask = None\<rparr>]"
  "fault st_dangling = None"
  by (simp_all add: st_dangling_def sched_dangling_def sched_defs pool_steps pool_ops)

section \<open>A task that submits while the pool drains\<close>

text \<open>Worker 0 is inside the call of \<open>T 1\<close> when the owner destroys the pool; the
  task then calls \<^verbatim>\<open>enqueue\<close> with \<open>T 2\<close>, on the worker's thread, and is
  refused: \<^verbatim>\<open>enqueue\<close> throws inside the task.\<close>

definition sched_nested :: "nat event list" where
  "sched_nested =
     sched_ctor @ sched_emplace (T 1) @ sched_notify @
     [Ev_Worker 0, Ev_Worker 0, Ev_Worker 0, Ev_Worker 0, Ev_Worker 0, Ev_Worker 0,
      Ev_Worker 0, Ev_Worker 0] @
     sched_destroy @ [Ev_Call (Worker 0) (T 2), Ev_Enqueue (Worker 0) 0, Ev_Enqueue (Worker 0) 0]"

definition st_nested :: "nat system" where
  "st_nested = the (exec sched_nested (ThreadPool_init 1))"

lemma st_nested_exec: "exec sched_nested (ThreadPool_init 1) = Some st_nested"
  by (simp add: st_nested_def sched_nested_def sched_defs pool_steps pool_ops)

lemma st_nested_reachable: "reachable st_nested"
  by (rule exec_init_reachable [OF st_nested_exec])

lemma st_nested_fields:
  "opc st_nested = D_Join 0"
  "stop st_nested"
  "workers st_nested = [\<lparr>wpc = W_Running, wid = 0, wtask = Some (T 1)\<rparr>]"
  "frames st_nested (Worker 0) = None"
  "accepted st_nested = [T 1]"
  "rejected st_nested = [(Worker 0, T 2)]"
  "started st_nested = [(0, T 1)]"
  "fault st_nested = None"
  by (simp_all add: st_nested_def sched_nested_def sched_defs pool_steps pool_ops)

end
