(* ===== verification/Pool_Spec.thy ===== *)
theory Pool_Spec
  imports Pool_Wf
begin

text \<open>
  What the pool promises to its users, as a machine with four operations on a
  queue and a flag, and the proof that the program implements it. The abstract
  pool knows no threads, no mutex and no counter: a task is submitted or
  refused, the task at the front is taken, the pool is shut down, each in one
  indivisible step. A step of the program is one of them at the statement that
  makes it visible (\<open>label\<close>: \<^verbatim>\<open>emplace\<close> at line 74, the throw of line 72,
  \<^verbatim>\<open>pop\<close> at line 54, the assignment of line 85) and changes nothing of the
  abstract pool at every other statement.
\<close>

section \<open>The abstract pool\<close>

record 'a apool =
  a_queue :: "'a task list"
  a_stopped :: bool
  a_taken :: "'a task list"
  a_refused :: "'a task list"

datatype 'a aevent = Submit "'a task" | Refuse "'a task" | Take | Shutdown

definition apool_init :: "'a apool" where
  "apool_init = \<lparr>a_queue = [], a_stopped = False, a_taken = [], a_refused = []\<rparr>"

fun astep :: "'a aevent \<Rightarrow> 'a apool \<Rightarrow> 'a apool option" where
  "astep (Submit f) p =
     (if a_stopped p then None else Some (p\<lparr>a_queue := a_queue p @ [f]\<rparr>))"
| "astep (Refuse f) p =
     (if a_stopped p then Some (p\<lparr>a_refused := a_refused p @ [f]\<rparr>) else None)"
| "astep Take p =
     (case a_queue p of
        [] \<Rightarrow> None
      | f # q \<Rightarrow> Some (p\<lparr>a_queue := q, a_taken := a_taken p @ [f]\<rparr>))"
| "astep Shutdown p = (if a_stopped p then None else Some (p\<lparr>a_stopped := True\<rparr>))"

fun arun :: "'a aevent list \<Rightarrow> 'a apool \<Rightarrow> 'a apool option" where
  "arun [] p = Some p"
| "arun (a # as) p = (case astep a p of None \<Rightarrow> None | Some p' \<Rightarrow> arun as p')"

lemma arun_append: "arun (as @ bs) p = Option.bind (arun as p) (arun bs)"
  by (induction as arbitrary: p) (auto split: option.splits)

section \<open>What the abstract pool guarantees\<close>

fun submitted :: "'a aevent list \<Rightarrow> 'a task list" where
  "submitted [] = []"
| "submitted (Submit f # as) = f # submitted as"
| "submitted (_ # as) = submitted as"

text \<open>First in, first out: what has been taken, followed by what is queued, is
  what was submitted, in the order of submission.\<close>

lemma arun_fifo:
  assumes "arun as p = Some p'"
  shows "a_taken p' @ a_queue p' = a_taken p @ a_queue p @ submitted as"
  using assms
proof (induction as arbitrary: p)
  case Nil
  then show ?case by simp
next
  case (Cons a as)
  from Cons.prems obtain p1 where a: "astep a p = Some p1" and as: "arun as p1 = Some p'"
    by (auto split: option.splits)
  from a have "a_taken p1 @ a_queue p1 @ submitted as = a_taken p @ a_queue p @ submitted (a # as)"
    by (cases a) (auto split: if_splits list.splits)
  with Cons.IH [OF as] show ?case by simp
qed

text \<open>Shutdown is final, and nothing is submitted after it.\<close>

lemma astep_stopped:
  assumes "astep a p = Some p'" and "a_stopped p"
  shows "a_stopped p' \<and> a_taken p' @ a_queue p' = a_taken p @ a_queue p"
  using assms by (cases a) (auto split: if_splits list.splits)

section \<open>The abstraction\<close>

definition abs_pool :: "'a system \<Rightarrow> 'a apool" where
  "abs_pool s =
     \<lparr>a_queue = tasks s, a_stopped = stop s, a_taken = dequeued s,
      a_refused = map snd (rejected s)\<rparr>"

fun label :: "'a event \<Rightarrow> 'a system \<Rightarrow> 'a aevent option" where
  "label Ev_Owner s = (if opc s = D_Stop then Some Shutdown else None)"
| "label (Ev_Worker k) s =
     (if k < length (workers s) \<and> wpc (workers s ! k) = W_Pop then Some Take else None)"
| "label (Ev_Enqueue t w) s =
     (case frames s t of
        None \<Rightarrow> None
      | Some fr \<Rightarrow>
          if epc fr = E_Emplace then Some (Submit (farg fr))
          else if epc fr = E_Check \<and> stop s then Some (Refuse (farg fr))
          else None)"
| "label (Ev_Spurious k) s = None"
| "label (Ev_Call t f) s = None"

text \<open>\<open>simulates a s s'\<close>: the move from \<open>s\<close> to \<open>s'\<close> is the abstract step \<open>a\<close>, or
  no abstract step at all.\<close>

definition simulates :: "'a aevent option \<Rightarrow> 'a system \<Rightarrow> 'a system \<Rightarrow> bool" where
  "simulates a s s' \<longleftrightarrow>
     (case a of
        None \<Rightarrow> abs_pool s' = abs_pool s
      | Some b \<Rightarrow> astep b (abs_pool s) = Some (abs_pool s'))"

lemma abs_pool_init [simp]: "abs_pool (ThreadPool_init n) = apool_init"
  by (simp add: abs_pool_def apool_init_def)

section \<open>Every step is an abstract step or none\<close>

lemma owner_simulates:
  assumes "owner_step s = Some s'" and "stop_inv s"
  shows "simulates (label Ev_Owner s) s s'"
  using assms
  by (cases rule: owner_step_cases) (auto simp: simulates_def abs_pool_def stop_inv_def)

lemma worker_simulates:
  assumes step: "worker_step k s = Some s'" and wk: "worker_inv s" and lock: "lock_inv s"
  shows "simulates (label (Ev_Worker k) s) s s'"
proof -
  note k = worker_step_guard(2) [OF step]
  note facts = k worker_invD [OF wk k] worker_no_ub [OF lock wk k]
  from step show ?thesis
  proof (cases rule: worker_step_cases)
    case (Fault x)
    with facts show ?thesis
      by (cases x) (auto simp: simulates_def abs_pool_def worker_throws_def)
  qed (use facts in \<open>auto simp: simulates_def abs_pool_def hd_Cons_tl split: list.splits\<close>)
qed

lemma enqueue_simulates:
  assumes step: "enqueue_step t w s = Some s'" and call: "call_inv s" and lock: "lock_inv s"
  shows "simulates (label (Ev_Enqueue t w) s) s s'"
  using step
proof (cases rule: enqueue_step_cases)
  case (Emplace fr)
  with call_invD [OF call, of t fr] show ?thesis
    by (simp add: simulates_def abs_pool_def)
next
  case (Fault fr)
  with lock_inv_frame_pc [OF lock, of t fr] show ?thesis
    by auto
qed (auto simp: simulates_def abs_pool_def)

lemma fire_simulates:
  assumes "fire e s = Some s'" and "wf_pool s"
  shows "simulates (label e s) s s'"
proof -
  from assms(2) have invs: "stop_inv s" "worker_inv s" "lock_inv s" "call_inv s"
    by (simp_all add: wf_pool_def)
  show ?thesis
  proof (cases e)
    case Ev_Owner
    with assms(1) show ?thesis by (simp add: owner_simulates invs del: label.simps)
  next
    case (Ev_Worker k)
    with assms(1) show ?thesis by (simp add: worker_simulates invs del: label.simps)
  next
    case (Ev_Spurious k)
    with assms(1) spurious_wakeup_frame(1) [of k s s'] show ?thesis
      by (simp add: simulates_def abs_pool_def)
  next
    case (Ev_Call t f)
    with assms(1) show ?thesis
      by (auto elim!: enqueue_callE simp: simulates_def abs_pool_def)
  next
    case (Ev_Enqueue t w)
    with assms(1) show ?thesis by (simp add: enqueue_simulates invs del: label.simps)
  qed
qed

section \<open>Runs\<close>

text \<open>The abstract events of a schedule run from \<open>s\<close>.\<close>

fun atrace :: "'a event list \<Rightarrow> 'a system \<Rightarrow> 'a aevent list" where
  "atrace [] s = []"
| "atrace (e # es) s =
     (case fire e s of
        None \<Rightarrow> []
      | Some s' \<Rightarrow> (case label e s of None \<Rightarrow> [] | Some a \<Rightarrow> [a]) @ atrace es s')"

lemma exec_simulates:
  assumes "exec es s = Some s'" and "wf_pool s"
  shows "arun (atrace es s) (abs_pool s) = Some (abs_pool s')"
  using assms
proof (induction es arbitrary: s)
  case Nil
  then show ?case by simp
next
  case (Cons e es)
  from Cons.prems(1) obtain s1 where e: "fire e s = Some s1" and es: "exec es s1 = Some s'"
    by (auto split: option.splits)
  from Cons.prems(2) have "wf_pool s1"
    using fire_step [OF e] by (blast intro: wf_pool_step)
  with es have "arun (atrace es s1) (abs_pool s1) = Some (abs_pool s')"
    by (rule Cons.IH)
  with fire_simulates [OF e Cons.prems(2)] e show ?case
    by (auto simp: simulates_def split: option.splits)
qed

end
