(* ===== verification/Contracts.thy ===== *)
theory Contracts
  imports Scenarios Pool_Spec
begin

text \<open>
  What the operations of the pool do when they run from their first statement
  to their last with no other thread in between: the sequential contract of
  \<^verbatim>\<open>enqueue\<close> on a running pool and on a stopped pool, and of one turn of the
  worker loop that finds a task. Each is a schedule of the steps of one thread
  and the state in which it ends; in particular the schedule does not block and
  raises no fault.
\<close>

section \<open>\<^verbatim>\<open>enqueue\<close>\<close>

text \<open>A call that is accepted: the call itself, then lines 68, 71, 74, 75, 76
  and 77.\<close>

definition enqueue_events :: "tid \<Rightarrow> nat \<Rightarrow> 'a task \<Rightarrow> 'a event list" where
  "enqueue_events t w f =
     [Ev_Call t f, Ev_Enqueue t w, Ev_Enqueue t w, Ev_Enqueue t w, Ev_Enqueue t w,
      Ev_Enqueue t w, Ev_Enqueue t w]"

text \<open>A call that throws: the call itself, then lines 68 and 71--72.\<close>

definition reject_events :: "tid \<Rightarrow> nat \<Rightarrow> 'a task \<Rightarrow> 'a event list" where
  "reject_events t w f = [Ev_Call t f, Ev_Enqueue t w, Ev_Enqueue t w]"

text \<open>
  C27. \<^verbatim>\<open>enqueue(f)\<close> on a pool that is not stopped, run without interruption by
  a thread that may call it while the mutex is free: the call does not block,
  puts \<open>f\<close> at the back of the queue, adds one to the counter, wakes the chosen
  sleeper if there is one, and returns with the mutex free; nothing else
  changes.
\<close>

theorem enqueue_accepts:
  assumes "fault s = None" and "opc s \<noteq> D_Done" and "may_call s t" and "frames s t = None"
    and "queue_mutex s = None" and "\<not> stop s"
    and "condition s = {} \<or> Worker w \<in> condition s"
  shows "\<exists>s'. exec (enqueue_events t w f) s = Some s' \<and>
    tasks s' = tasks s @ [f] \<and> task_queue_size s' = task_queue_size s + 1 \<and>
    accepted s' = accepted s @ [f] \<and> rejected s' = rejected s \<and>
    queue_mutex s' = None \<and> frames s' t = None \<and>
    condition s' = condition s - {Worker w} \<and> workers s' = workers s \<and> fault s' = None"
  using assms
  by (simp add: enqueue_events_def enqueue_call_def enqueue_step_def
      e_lock_def e_check_def e_emplace_def e_inc_def e_unlock_def e_notify_def
      q_emplace_def egoto_def put_frame_def cv_notify_one_def)
     blast

theorem enqueue_accepts_witness:
  "\<exists>s'. exec (enqueue_events (Client 0) 0 (T 2)) st_queued = Some s' \<and>
     tasks s' = [T 1, T 2] \<and> task_queue_size s' = 2 \<and> queue_mutex s' = None \<and>
     fault s' = None"
proof -
  from enqueue_accepts [of st_queued "Client 0" 0 "T 2"]
  obtain s' where "exec (enqueue_events (Client 0) 0 (T 2)) st_queued = Some s'"
    and "tasks s' = [T 1, T 2]" and "task_queue_size s' = 2" and "queue_mutex s' = None"
    and "fault s' = None"
    by (auto simp: st_queued_fields may_call_def)
  then show ?thesis by blast
qed

text \<open>
  C28. \<^verbatim>\<open>enqueue(f)\<close> on a stopped pool, run without interruption while the
  mutex is free: the call does not block, throws (the call is recorded as
  rejected) and leaves the queue, the counter, the sleepers and the workers as
  they were, with the mutex free again.
\<close>

theorem enqueue_rejects:
  assumes "fault s = None" and "opc s \<noteq> D_Done" and "may_call s t" and "frames s t = None"
    and "queue_mutex s = None" and "stop s"
  shows "\<exists>s'. exec (reject_events t w f) s = Some s' \<and>
    tasks s' = tasks s \<and> task_queue_size s' = task_queue_size s \<and>
    accepted s' = accepted s \<and> rejected s' = rejected s @ [(t, f)] \<and>
    queue_mutex s' = None \<and> frames s' t = None \<and>
    condition s' = condition s \<and> workers s' = workers s \<and> fault s' = None"
  using assms
  by (simp add: reject_events_def enqueue_call_def enqueue_step_def
      e_lock_def e_check_def egoto_def put_frame_def)

theorem enqueue_rejects_witness:
  "\<exists>s'. exec (reject_events (Client 0) 0 (T 3)) st_rejected = Some s' \<and>
     tasks s' = [] \<and> accepted s' = [] \<and>
     rejected s' = [(Client 0, T 2), (Client 0, T 3)] \<and> queue_mutex s' = None"
proof -
  from enqueue_rejects [of st_rejected "Client 0" 0 "T 3"]
  obtain s' where "exec (reject_events (Client 0) 0 (T 3)) st_rejected = Some s'"
    and "tasks s' = []" and "accepted s' = []"
    and "rejected s' = [(Client 0, T 2), (Client 0, T 3)]" and "queue_mutex s' = None"
    by (auto simp: st_rejected_fields may_call_def)
  then show ?thesis by blast
qed

section \<open>One turn of the worker loop\<close>

text \<open>Lines 47, 48, 51, 53, 54, 55, 56 and 58 of worker \<open>k\<close>.\<close>

definition take_events :: "nat \<Rightarrow> 'a event list" where
  "take_events k =
     [Ev_Worker k, Ev_Worker k, Ev_Worker k, Ev_Worker k, Ev_Worker k, Ev_Worker k,
      Ev_Worker k, Ev_Worker k]"

text \<open>
  C29. A worker at the top of its loop that finds the mutex free and the queue
  not empty, run without interruption up to the call of the task: it does not
  block or wait, takes the task at the front of the queue and no other,
  subtracts one from the counter, releases the mutex and calls the task with
  its own index.
\<close>

theorem worker_takes_front:
  assumes "fault s = None" and "k < length (workers s)" and "wpc (workers s ! k) = W_Lock"
    and "queue_mutex s = None" and "tasks s = f # q"
  shows "\<exists>s'. exec (take_events k) s = Some s' \<and>
    tasks s' = q \<and> task_queue_size s' = task_queue_size s - 1 \<and>
    dequeued s' = dequeued s @ [f] \<and>
    started s' = started s @ [(wid (workers s ! k), f)] \<and>
    workers s' = (workers s)[k := (workers s ! k)\<lparr>wtask := Some f, wpc := W_Running\<rparr>] \<and>
    queue_mutex s' = None \<and> condition s' = condition s \<and> fault s' = None"
  using assms
  by (simp add: take_events_def worker_step_def w_lock_def w_while_def w_if_def w_front_def
      w_pop_def w_dec_def w_unlock_def w_call_def goto_def put_worker_def q_empty_def
      q_front_def q_pop_def del: worker_step_length)

theorem worker_takes_front_witness:
  "\<exists>s'. exec (take_events 0) st_queued = Some s' \<and>
     tasks s' = [] \<and> task_queue_size s' = 0 \<and> started s' = [(0, T 1)] \<and>
     queue_mutex s' = None"
proof -
  from worker_takes_front [of st_queued 0 "T 1" "[]"]
  obtain s' where "exec (take_events 0) st_queued = Some s'"
    and "tasks s' = []" and "task_queue_size s' = 0" and "started s' = [(0, T 1)]"
    and "queue_mutex s' = None"
    by (auto simp: st_queued_fields)
  then show ?thesis by blast
qed

section \<open>From submission to the call\<close>

text \<open>
  C25. Round trip through the queue. On a running pool with an empty queue, an
  idle worker and nobody asleep, a call of \<^verbatim>\<open>enqueue(f)\<close> followed by one turn of
  the worker loop hands \<open>f\<close> itself to the worker, which calls it with its own
  index; the queue is empty again and the counter is what it was.
\<close>

theorem submit_take_roundtrip:
  assumes "fault s = None" and "opc s \<noteq> D_Done" and "may_call s t" and "frames s t = None"
    and "queue_mutex s = None" and "\<not> stop s" and "tasks s = []" and "condition s = {}"
    and "k < length (workers s)" and "wpc (workers s ! k) = W_Lock"
  shows "\<exists>s'. exec (enqueue_events t w f @ take_events k) s = Some s' \<and>
    wtask (workers s' ! k) = Some f \<and> wpc (workers s' ! k) = W_Running \<and>
    started s' = started s @ [(wid (workers s ! k), f)] \<and>
    tasks s' = [] \<and> task_queue_size s' = task_queue_size s \<and>
    queue_mutex s' = None \<and> fault s' = None"
  using assms
  by (simp add: enqueue_events_def take_events_def enqueue_call_def enqueue_step_def
      e_lock_def e_check_def e_emplace_def e_inc_def e_unlock_def e_notify_def
      q_emplace_def egoto_def put_frame_def cv_notify_one_def
      worker_step_def w_lock_def w_while_def w_if_def w_front_def
      w_pop_def w_dec_def w_unlock_def w_call_def goto_def put_worker_def q_empty_def
      q_front_def q_pop_def del: worker_step_length)

theorem submit_take_roundtrip_witness:
  "\<exists>s'. exec (enqueue_events (Client 0) 0 (T 5) @ take_events 0) (ThreadPool_ctor 1) = Some s' \<and>
     wtask (workers s' ! 0) = Some (T 5) \<and> started s' = [(0, T 5)] \<and> tasks s' = [] \<and>
     task_queue_size s' = 0"
proof -
  from submit_take_roundtrip [of "ThreadPool_ctor 1" "Client 0" 0 0 "T 5"]
  obtain s' :: "nat system"
    where "exec (enqueue_events (Client 0) 0 (T 5) @ take_events 0) (ThreadPool_ctor 1) = Some s'"
      and "wtask (workers s' ! 0) = Some (T 5)" and "started s' = [(0, T 5)]"
      and "tasks s' = []" and "task_queue_size s' = 0"
    by (auto simp: ThreadPool_ctor_def ctor_run_eq may_call_def new_worker_def)
  then show ?thesis by blast
qed

end
