(* ===== verification/Spec2Isabelle.thy ===== *)
theory Spec2Isabelle
  imports Contracts
begin

text \<open>
  \<^bold>\<open>A verification of the thread pool of \<^verbatim>\<open>src/ThreadPool.h\<close>.\<close>

  \<^bold>\<open>The program.\<close> \<^verbatim>\<open>class ThreadPool\<close> owns a vector of worker threads, a FIFO
  queue of tasks, a counter of the queued tasks, a mutex, a condition variable
  and a stop flag. The constructor starts the workers. Each worker runs a loop:
  lock, sleep on the condition variable while the queue is empty and the pool
  is not stopped, leave if the pool is stopped and the queue is empty, else
  take the front task, unlock and call it with the worker's index. \<^verbatim>\<open>enqueue\<close>
  appends a task under the lock and wakes one sleeper, or throws if the pool
  is stopped. The destructor sets the stop flag under the lock, wakes every
  sleeper and joins the workers.

  \<^bold>\<open>The model.\<close> A state of the model is a record of the data members of the
  class, extended by the control state of every thread; a step of the model
  is one statement of one thread. All definitions are executable.

  \<^item> \<open>Pool_Prelude\<close>: \<open>size_t\<close> as a 64-bit word, thread identifiers, shared
    lemmas on lists, multisets and words.
  \<^item> \<open>Sync\<close>: \<^verbatim>\<open>std::mutex\<close> and \<^verbatim>\<open>std::condition_variable\<close> as an owner and a
    set of sleepers, with \<open>mutex_lock\<close>, \<open>mutex_unlock\<close>, \<open>cv_wait\<close>, \<open>cv_resume\<close>,
    \<open>cv_notify_one\<close>, \<open>cv_notify_all\<close>, \<open>cv_spurious\<close>. Their behaviour is that
    of the C++ standard; a wake-up may be spurious.
  \<^item> \<open>Task_Queue\<close>: a task as a label and an outcome per worker index; the
    queue as a list with \<open>q_empty\<close>, \<open>q_emplace\<close>, \<open>q_front\<close>, \<open>q_pop\<close>.
  \<^item> \<open>Pool_State\<close>: the records \<open>ThreadPool\<close> (lines 14--31) and \<open>system\<close>, the
    program counters \<open>wpc\<close>, \<open>epc\<close>, \<open>opc\<close>, and \<open>ThreadPool_init\<close> (the member
    initialisers, line 35).
  \<^item> \<open>Worker\<close>: the lambda of lines 40--60, one operation per statement
    (\<open>w_lock\<close> \<dots> \<open>w_return\<close>), and \<open>worker_step\<close>; the rule
    \<open>worker_step_cases\<close> lists what a step of a worker can be.
  \<^item> \<open>Enqueue\<close>: \<^verbatim>\<open>enqueue\<close> (lines 65--78) as \<open>enqueue_call\<close> and \<open>enqueue_step\<close>
    over \<open>e_lock\<close> \<dots> \<open>e_notify\<close>, with \<open>enqueue_step_cases\<close>; \<^verbatim>\<open>queue_size\<close>
    (line 18).
  \<^item> \<open>Lifecycle\<close>: the loop of the constructor (\<open>ctor_loop\<close>, lines 38--61; run
    to its end by \<open>ctor_run\<close>, which gives \<open>ThreadPool_ctor\<close>) and the destructor
    (\<open>d_enter\<close> \<dots> \<open>d_join\<close>, lines 81--90), \<open>owner_step\<close> and \<open>owner_step_cases\<close>.
  \<^item> \<open>Pool_System\<close>: the interleaving of all threads as the relation \<open>step\<close>,
    the function \<open>fire\<close> on events, schedules (\<open>exec\<close>), the reachable states
    and the proof rule for invariants, \<open>invariantI\<close>.
  \<^item> \<open>Pool_Invariants\<close>: who may be inside \<^verbatim>\<open>enqueue\<close> (\<open>frame_inv\<close>) and the
    lock invariant (\<open>lock_inv\<close>): a thread is in a locked block exactly when
    it owns the mutex.
  \<^item> \<open>Queue_Invariants\<close>: what a worker knows at each statement of its locked
    block (\<open>worker_inv\<close>), that a call past its test saw \<open>stop\<close> clear
    (\<open>call_inv\<close>), and the counter against the length of the queue
    (\<open>count_inv\<close>).
  \<^item> \<open>History_Invariants\<close>: the order of the queue (\<open>fifo_inv\<close>), the accounting
    of tasks (\<open>acct_inv\<close>), the vector of workers (\<open>ctor_inv\<close>) and the calls
    made (\<open>started_inv\<close>).
  \<^item> \<open>Shutdown\<close>: the stop flag (\<open>stop_inv\<close>), workers that have left
    (\<open>exit_inv\<close>), the joins of the destructor (\<open>join_inv\<close>).
  \<^item> \<open>Fault_Freedom\<close>: which faults a reachable state can have (\<open>fault_inv\<close>).
  \<^item> \<open>Progress\<close>: when each thread is blocked (\<open>worker_step_None_iff\<close>,
    \<open>enqueue_step_None_iff\<close>, \<open>owner_step_None_iff\<close>); who sleeps (\<open>cond_inv\<close>),
    that nobody sleeps after \<^verbatim>\<open>notify_all\<close> (\<open>quiet_inv\<close>), that no wake-up is lost
    (\<open>wake_inv\<close>), and that some thread can always move (\<open>reachable_can_move\<close>).
  \<^item> \<open>Call_Order\<close>: the order of the calls in a pool of one thread (\<open>order_inv\<close>).
  \<^item> \<open>Pool_Wf\<close>: all invariants together, \<open>wf_pool\<close>, as one inductive
    invariant.
  \<^item> \<open>Termination\<close>: the potential \<open>pot\<close> of a state, which every statement
    of the owner, a worker or a caller inside \<^verbatim>\<open>enqueue\<close> lowers
    (\<open>fire_pot\<close>, \<open>exec_pot\<close>); a scheduler (\<open>candidates\<close>, \<open>pick\<close>) and the
    run of a pool under it with fuel (\<open>run\<close>); that the potential is enough
    fuel (\<open>run_total\<close>) and where the run ends (\<open>run_stuck\<close>, \<open>run_final\<close>);
    when a closed pool is stuck (\<open>reachable_can_move_iff\<close>) and what it has done
    by then (\<open>exec_stuck_drained\<close>); the length of a run with new calls
    (\<open>exec_admitted\<close>). The scheduler stands for the operating system's; it
    models no line of the source.
  \<^item> \<open>Pool_Spec\<close>: the abstract pool (\<open>apool\<close>, \<open>astep\<close>, \<open>arun\<close>), the abstraction
    \<open>abs_pool\<close>, the abstract event of a step (\<open>label\<close>, \<open>atrace\<close>) and the proof
    that every step of the program is that abstract step or leaves the abstract
    pool as it is (\<open>fire_simulates\<close>, \<open>exec_simulates\<close>). The abstract pool is a
    specification, written from the contract of the public interface; it models
    no line of the source on its own.
  \<^item> \<open>Scenarios\<close>: concrete schedules and the states they end in.
  \<^item> \<open>Contracts\<close>: \<^verbatim>\<open>enqueue\<close> and one turn of the worker loop run without
    interruption, and the two one after the other.
  \<^item> This theory: the theorems about the pool as a whole, each applied to a
    state of \<open>Scenarios\<close>.

  Every invariant is proved in the same way: one lemma per kind of step
  (owner, worker, spurious wake-up, start of a call, statement of a call), by
  the case rule of that thread, and \<open>invariantI\<close> to put them together. A
  later invariant may use the earlier ones for the state before the step.

  \<^bold>\<open>Faults.\<close> Where a statement has no defined behaviour (\<^verbatim>\<open>front\<close> or \<^verbatim>\<open>pop\<close> on an
  empty queue, unlocking a mutex that the thread does not own, waiting without
  the lock) the model sets \<open>fault\<close> to \<open>Undefined\<close>; where an exception leaves a
  worker (a task throws) it sets \<open>fault\<close> to \<open>Terminate\<close>. No thread moves in a
  state with a fault. A thread that would block has no step. A task that never
  returns is a worker that stays at \<open>W_Running\<close>.

  \<^bold>\<open>History variables.\<close> \<open>accepted\<close>, \<open>rejected\<close>, \<open>dequeued\<close> and \<open>started\<close> record
  the tasks put into the queue, the calls that threw, the tasks taken out and
  the calls \<^verbatim>\<open>task(i)\<close>, in the order of the events. No operation reads them.

  \<^bold>\<open>Bounds.\<close> The number of threads and the counter are 64-bit words, as
  \<^verbatim>\<open>size_t\<close> is on the usual targets; the queue and the number of callers are
  unbounded. The loop of the constructor is a total function (\<open>ctor_run\<close>, with
  the distance to \<open>threads\<close> as measure). A step is one statement and the
  loops of the program are sequences of steps, so the operations need no
  fuel. The one definition with fuel is \<open>run\<close>, which lets the scheduler choose
  statements until none is left and is \<open>None\<close> when the fuel is used up before
  that. \<open>pot F s\<close> statements are always enough (\<open>run_total\<close>), where \<open>F\<close> is a
  finite set of callers that contains those inside \<^verbatim>\<open>enqueue\<close>: the owner of a
  live pool of \<open>n\<close> threads counts for \<open>6 * n + 6\<close>, a worker for at most 9, a
  call for at most 20, a queued task for 9 (the turn of the worker that takes
  it), and a state without fault for 1.

  \<^bold>\<open>What is assumed.\<close> Statements are atomic and sequentially consistent; the
  read of \<^verbatim>\<open>task_queue_size\<close> in \<^verbatim>\<open>queue_size\<close>, which the source does without
  the lock, is one atomic read. Memory is unbounded: \<^verbatim>\<open>emplace\<close> and thread
  creation do not fail. A caller that is neither the owner nor a worker takes
  no step in \<^verbatim>\<open>enqueue\<close> once the destructor has returned; that such a call can
  still be in progress then is a hazard the source leaves to its user
  (\<open>call_outlives_pool\<close>). The outcome of a task does not depend on what its
  own calls of \<^verbatim>\<open>enqueue\<close> do: a task that submits to a draining pool is
  refused (\<open>nested_submit_refused\<close>) and is taken to handle the exception as
  its outcome says. A moved from \<^verbatim>\<open>std::function\<close> at the front of the
  queue is not distinguished from the task it held. The destructor runs at
  most once, and not while the owner is inside \<^verbatim>\<open>enqueue\<close>.

  \<^bold>\<open>Not modelled.\<close> The bodies of tasks beyond their outcome and their calls to
  \<^verbatim>\<open>enqueue\<close>; the difference between copying and moving a closure; fairness of
  the scheduler in an open pool, where new calls of \<^verbatim>\<open>enqueue\<close> and spurious
  wake-ups can keep a run going for ever. Progress is proved in the forms that
  need no fairness: some thread can always move (\<open>deadlock_free\<close>), no wake-up
  is lost (\<open>no_lost_wakeup\<close>), every accepted task has been called when the
  destructor has returned (\<open>drain_guarantee\<close>), and a pool that no new call
  enters and in which no wake-up is spurious comes to its end under every
  scheduler (\<open>bounded_internal_runs\<close>, \<open>closed_pool_terminates\<close>,
  \<open>accepted_tasks_are_called\<close>, \<open>every_maximal_run_drains\<close>).
\<close>

section \<open>Mutual exclusion\<close>

text \<open>
  C1. Mutual exclusion. In every reachable state at most one thread is between
  a lock of \<^verbatim>\<open>queue_mutex\<close> and the matching unlock (lines 47--56 of a worker,
  68--76 of \<^verbatim>\<open>enqueue\<close>, 84--86 of the destructor): if thread \<open>t\<close> is in such a
  region, no other thread is.
\<close>

theorem mutual_exclusion:
  assumes "reachable s" and "holds s t" and "u \<noteq> t"
  shows "\<not> holds s u"
  using lock_inv_exclusive [OF reachable_lock_inv [OF assms(1)] assms(2)] assms(3)
  by blast

theorem mutual_exclusion_witness:
  "holds st_emplaced (Client 0) \<and> \<not> holds st_emplaced (Worker 0)"
  using mutual_exclusion [OF st_emplaced_reachable, of "Client 0" "Worker 0"]
  by (simp add: holds_def st_emplaced_fields)

section \<open>No undefined behaviour\<close>

text \<open>
  C2. No reachable state has the fault \<open>Undefined\<close>: no thread calls
  \<^verbatim>\<open>tasks.front()\<close> or \<^verbatim>\<open>tasks.pop()\<close> on an empty queue, waits on the condition
  variable without holding the lock, or releases a lock it does not hold, in
  any interleaving, with any tasks and with spurious wake-ups.
\<close>

theorem no_undefined_behaviour:
  assumes "reachable s"
  shows "fault s \<noteq> Some Undefined"
  using assms by (rule reachable_no_ub)

theorem no_undefined_behaviour_witness:
  "reachable st_final \<and> fault st_final \<noteq> Some Undefined"
  using no_undefined_behaviour [OF st_final_reachable] st_final_reachable by simp

section \<open>Tasks are neither lost nor duplicated\<close>

text \<open>
  C3. Every task that \<^verbatim>\<open>enqueue\<close> has put into the queue is, counted with its
  multiplicity, in exactly one place: still in the queue, taken out by a worker
  that has not yet called it, or called. No task is dropped and none is called
  twice.
\<close>

theorem no_task_lost_or_duplicated:
  assumes "reachable s"
  shows "mset (accepted s) = mset (tasks s) + inflight s + mset (map snd (started s))"
  using reachable_accounting [OF assms] by simp

theorem no_task_lost_or_duplicated_witness:
  "mset (accepted st_final) =
     mset (tasks st_final) + inflight st_final + mset (map snd (started st_final)) \<and>
   accepted st_final = [T 1] \<and> started st_final = [(0, T 1)]"
  using no_task_lost_or_duplicated [OF st_final_reachable]
  by (simp add: st_final_fields)

text \<open>
  C4. First in, first out. The tasks leave the queue in the order in which
  \<^verbatim>\<open>enqueue\<close> put them there: the sequence of accepted tasks is the sequence of
  tasks taken out so far followed by the queue.
\<close>

theorem fifo_order:
  assumes "reachable s"
  shows "accepted s = dequeued s @ tasks s"
  using reachable_fifo_inv [OF assms] by (simp add: fifo_inv_def)

theorem fifo_order_witness:
  "accepted st_emplaced = dequeued st_emplaced @ tasks st_emplaced \<and>
   tasks st_emplaced = [T 1]"
  using fifo_order [OF st_emplaced_reachable] by (simp add: st_emplaced_fields)

section \<open>The counter of queued tasks\<close>

text \<open>
  C5. Whenever the mutex is free, \<^verbatim>\<open>queue_size()\<close> is the number of tasks in the
  queue, as a 64-bit number; it is that number itself as long as the queue holds
  fewer than \<open>2\<^sup>6\<^sup>4\<close> tasks.
\<close>

theorem queue_size_exact:
  assumes "reachable s" and "queue_mutex s = None"
  shows "queue_size s = of_nat (length (tasks s)) \<and>
    (length (tasks s) < 2 ^ 64 \<longrightarrow> unat (queue_size s) = length (tasks s))"
  using reachable_count_inv [OF assms(1)] assms(2)
  by (simp add: count_inv_def owed_free queue_size_def unat_of_nat_size_t)

theorem queue_size_exact_witness:
  "queue_mutex st_zero = None \<and> queue_size st_zero = 1 \<and> unat (queue_size st_zero) = 1 \<and>
   length (tasks st_zero) = 1"
  using queue_size_exact [OF st_zero_reachable] by (simp add: st_zero_fields)

section \<open>A stopped pool accepts nothing\<close>

text \<open>
  C6. Once \<open>stop\<close> is set, no step of any thread puts a task into the queue: a
  call of \<^verbatim>\<open>enqueue\<close> that tests the flag after the destructor has set it throws,
  and no call is past its test at that moment.
\<close>

theorem no_acceptance_after_stop:
  assumes "reachable s" and "stop s" and "step s s'"
  shows "accepted s' = accepted s"
  using assms(3)
proof cases
  case (enqueue t w)
  then show ?thesis
    using assms(2)
    by (cases rule: enqueue_step_cases)
       (auto dest: call_invD [OF reachable_call_inv [OF assms(1)]])
qed (auto elim!: enqueue_callE dest!: spurious_wakeup_frame(1)
      simp: owner_step_frame worker_step_frame)

theorem no_acceptance_after_stop_witness:
  "stop st_late \<and> step st_late st_rejected \<and> accepted st_rejected = accepted st_late \<and>
   rejected st_rejected = [(Client 0, T 2)]"
  using no_acceptance_after_stop [OF st_late_reachable _ step.enqueue [OF st_late_step]]
  by (simp add: st_late_fields st_rejected_fields step.enqueue [OF st_late_step])

section \<open>The drain guarantee\<close>

text \<open>
  C7. When the destructor of a pool with at least one thread has returned, the
  queue is empty and every accepted task has been called, each exactly as often
  as it was accepted.
\<close>

theorem drain_guarantee:
  assumes "reachable s" and "opc s = D_Done" and "threads s \<noteq> 0"
  shows "tasks s = [] \<and> mset (map snd (started s)) = mset (accepted s)"
  using reachable_accounting [OF assms(1)] done_tasks_empty [OF assms]
    done_inflight [OF assms(1,2)]
  by simp

theorem drain_guarantee_witness:
  "opc st_final = D_Done \<and> threads st_final \<noteq> 0 \<and> tasks st_final = [] \<and>
   mset (map snd (started st_final)) = mset (accepted st_final)"
  using drain_guarantee [OF st_final_reachable] by (simp add: st_final_fields)

section \<open>Calls of tasks\<close>

text \<open>
  C13. Worker identity. Every call \<^verbatim>\<open>task(i)\<close> passes an index \<open>i\<close> below the
  number of threads the pool was constructed with.
\<close>

theorem worker_identity_in_range:
  assumes "reachable s" and "c \<in> set (started s)"
  shows "fst c < threads s"
proof -
  from reachable_started_inv [OF assms(1)] assms(2)
  obtain k where "k < length (workers s)" and "wid (workers s ! k) = fst c"
    by (auto simp: started_inv_def)
  then show ?thesis
    using ctor_inv_wid_less [OF reachable_ctor_inv [OF assms(1)], of k] by simp
qed

theorem worker_identity_in_range_witness:
  "(0, T 1) \<in> set (started st_final) \<and> (0 :: size_t) < threads st_final"
  using worker_identity_in_range [OF st_final_reachable, of "(0, T 1)"]
  by (simp add: st_final_fields)

text \<open>
  C14. The process is terminated by an exception that leaves a worker only if a
  task that a worker has called throws when called with that worker's index.
\<close>

theorem terminate_only_by_throw:
  assumes "reachable s" and "fault s = Some Terminate"
  shows "thrown s"
  using reachable_fault_inv [OF assms(1)] assms(2) by (simp add: fault_inv_def)

theorem terminate_only_by_throw_witness:
  "fault st_thrown = Some Terminate \<and> thrown st_thrown"
  using terminate_only_by_throw [OF st_thrown_reachable] by (simp add: st_thrown_fields)

text \<open>
  C15. If no accepted task throws, whatever index it is called with, the pool
  has no fault at all.
\<close>

theorem well_behaved_fault_free:
  assumes "reachable s" and "list_all well_behaved (accepted s)"
  shows "fault s = None"
  using reachable_fault_inv [OF assms(1)] well_behaved_not_thrown [OF assms]
  by (auto simp: fault_inv_def)

theorem well_behaved_fault_free_witness:
  "list_all well_behaved (accepted st_final) \<and> fault st_final = None"
  using well_behaved_fault_free [OF st_final_reachable] by (simp add: st_final_fields)

section \<open>The members behind the mutex\<close>

text \<open>
  C16. The queue, its counter and the stop flag change only in a step of the
  thread that owns the mutex: a step taken while the mutex is free leaves all
  three as they are.
\<close>

theorem protected_members:
  assumes "reachable s" and "queue_mutex s = None" and "step s s'"
  shows "tasks s' = tasks s \<and> task_queue_size s' = task_queue_size s \<and> stop s' = stop s"
proof -
  note lock = reachable_lock_inv [OF assms(1)]
  from assms(3) show ?thesis
  proof cases
    case owner
    with lock assms(2) show ?thesis by (simp add: owner_step_protected)
  next
    case (worker k)
    with lock assms(2) show ?thesis by (simp add: worker_step_protected)
  next
    case (spurious k)
    then show ?thesis by (auto dest!: spurious_wakeup_frame(1))
  next
    case (call t f)
    then show ?thesis by (auto elim!: enqueue_callE)
  next
    case (enqueue t w)
    with lock assms(2) show ?thesis by (simp add: enqueue_step_protected)
  qed
qed

theorem protected_members_witness:
  "queue_mutex st_rejected = None \<and> step st_rejected st_resumed \<and>
   tasks st_resumed = tasks st_rejected \<and>
   task_queue_size st_resumed = task_queue_size st_rejected \<and>
   stop st_resumed = stop st_rejected"
  using protected_members [OF st_rejected_reachable _ step.worker [OF st_rejected_step]]
  by (simp add: st_rejected_fields step.worker [OF st_rejected_step])

section \<open>The end of the workers\<close>

text \<open>
  C17. A worker leaves its loop only when the pool is stopped and the queue is
  empty, and from then on both stay so: in every reachable state in which some
  worker has returned from its thread function, \<open>stop\<close> is set and the queue is
  empty.
\<close>

theorem workers_exit_only_when_drained:
  assumes "reachable s" and "k < length (workers s)" and "wpc (workers s ! k) = W_Exited"
  shows "stop s \<and> tasks s = []"
  using reachable_exit_inv [OF assms(1)] assms(2,3) by (auto simp: exit_inv_def exited_def)

theorem workers_exit_only_when_drained_witness:
  "wpc (workers st_final ! 0) = W_Exited \<and> stop st_final \<and> tasks st_final = []"
  using workers_exit_only_when_drained [OF st_final_reachable, of 0]
  by (simp add: st_final_fields)

text \<open>
  C18. When the destructor has returned, the pool has as many workers as
  threads were asked for and every one of them has returned from its thread
  function: the destructor has joined them all.
\<close>

theorem destructor_joins_all:
  assumes "reachable s" and "opc s = D_Done"
  shows "length (workers s) = unat (threads s) \<and>
    list_all (\<lambda>w. wpc w = W_Exited) (workers s)"
  using done_length_workers [OF assms] done_all_exited [OF assms]
  by (simp add: list_all_length)

theorem destructor_joins_all_witness:
  "opc st_final = D_Done \<and> length (workers st_final) = unat (threads st_final) \<and>
   list_all (\<lambda>w. wpc w = W_Exited) (workers st_final)"
  using destructor_joins_all [OF st_final_reachable] by (simp add: st_final_fields)



section \<open>The constructor\<close>


section \<open>What the counter can be while the mutex is held\<close>

text \<open>
  C32. \<^verbatim>\<open>queue_size()\<close> takes no lock, so it can run between the change of the
  queue and the change of the counter. It is then off by one at most: it is
  the length of the queue, one more (a worker has popped and not yet
  decremented) or one less (a caller has emplaced and not yet incremented), as
  64-bit numbers.
\<close>

theorem queue_size_within_one:
  assumes "reachable s"
  shows "queue_size s = of_nat (length (tasks s)) \<or>
    queue_size s = of_nat (length (tasks s)) + 1 \<or>
    queue_size s = of_nat (length (tasks s)) - 1"
  using reachable_count_inv [OF assms] owed_cases [of s]
  by (auto simp: count_inv_def queue_size_def)

theorem queue_size_within_one_witness:
  "queue_size st_emplaced = of_nat (length (tasks st_emplaced)) - 1 \<and>
   queue_size st_emplaced \<noteq> of_nat (length (tasks st_emplaced))"
  using queue_size_within_one [OF st_emplaced_reachable]
  by (simp add: st_emplaced_fields queue_size_def)

section \<open>Pools at the edge\<close>

text \<open>
  C33. A pool constructed with zero threads has no worker, never takes a task
  out of its queue and never calls one.
\<close>

theorem zero_threads_never_run:
  assumes "reachable s" and "threads s = 0"
  shows "workers s = [] \<and> started s = [] \<and> dequeued s = []"
proof -
  from reachable_ctor_inv [OF assms(1)] assms(2) have w: "workers s = []"
    by (auto simp: ctor_inv_def)
  with reachable_started_inv [OF assms(1)] have st: "started s = []"
    by (cases "started s") (auto simp: started_inv_def)
  with reachable_acct_inv [OF assms(1)] w show ?thesis
    by (simp add: acct_inv_def inflight_def)
qed

theorem zero_threads_never_run_witness:
  "threads st_zero = 0 \<and> opc st_zero = D_Done \<and> tasks st_zero = [T 1] \<and>
   rejected st_zero = [] \<and> started st_zero = []"
  using zero_threads_never_run [OF st_zero_reachable] by (simp add: st_zero_fields)




text \<open>
  C23. A pool of one thread calls the tasks in the order of their submission:
  the calls made so far are the first of the accepted tasks, in the same order.
\<close>

theorem single_worker_order:
  assumes "reachable s" and "threads s = 1"
  shows "map snd (started s) = take (length (started s)) (accepted s)"
  using single_thread_calls [OF assms] by simp

theorem single_worker_order_witness:
  "threads st_three = 1 \<and> accepted st_three = [T 1, T 2, T 3] \<and>
   map snd (started st_three) = [T 1, T 2, T 3]"
  using single_worker_order [OF st_three_reachable] by (simp add: st_three_fields)

section \<open>Well-formed states\<close>

text \<open>
  C24. The well-formed states of a pool are closed under the steps of the
  system: a step of any thread from a state in which all invariants of the
  development hold, reachable or not, ends in such a state.
\<close>

theorem wf_pool_inductive:
  assumes "wf_pool s" and "step s s'"
  shows "wf_pool s'"
  using assms(2,1) by (rule wf_pool_step)

theorem wf_pool_inductive_witness:
  "wf_pool st_late \<and> step st_late st_rejected \<and> wf_pool st_rejected"
  using wf_pool_inductive [OF reachable_wf_pool [OF st_late_reachable] step.enqueue [OF st_late_step]]
    reachable_wf_pool [OF st_late_reachable] step.enqueue [OF st_late_step]
  by simp

section \<open>The pool implements its specification\<close>

text \<open>
  C22. Refinement. Every run of the program is a run of the abstract pool of
  \<open>Pool_Spec\<close>: the abstract events of a schedule (\<open>atrace\<close>: a task submitted
  at \<^verbatim>\<open>emplace\<close>, refused at the throw, taken at \<^verbatim>\<open>pop\<close>, the shutdown at the
  assignment to \<open>stop\<close>), run by the abstract pool from its initial state, are
  all enabled there and end in the abstraction of the state the program is in.
\<close>

theorem pool_refines_spec:
  assumes "exec es (ThreadPool_init n) = Some s"
  shows "arun (atrace es (ThreadPool_init n)) apool_init = Some (abs_pool s)"
  using exec_simulates [OF assms wf_pool_init] by simp

theorem pool_refines_spec_witness:
  "atrace sched_three (ThreadPool_init 1) =
     [Submit (T 1), Submit (T 2), Submit (T 3), Take, Take, Take, Shutdown] \<and>
   arun [Submit (T 1), Submit (T 2), Submit (T 3), Take, Take, Take, Shutdown] apool_init =
     Some (abs_pool st_three)"
proof -
  have "atrace sched_three (ThreadPool_init 1) =
      [Submit (T 1), Submit (T 2), Submit (T 3), Take, Take, Take, Shutdown]"
    by (simp add: sched_three_def sched_defs pool_steps pool_ops)
  with pool_refines_spec [OF st_three_exec] show ?thesis by simp
qed

section \<open>Sleeping and waking\<close>

text \<open>
  C8. No wake-up is lost. Whenever a task is in the queue of a pool that has
  workers, some worker that has not left is awake (not blocked inside
  \<^verbatim>\<open>wait\<close>), or some caller of \<^verbatim>\<open>enqueue\<close> has put its task into the queue and
  has not yet called \<^verbatim>\<open>notify_one\<close>. A task is never left in the queue with
  every worker asleep and nobody about to wake one.
\<close>

theorem no_lost_wakeup:
  assumes "reachable s" and "tasks s \<noteq> []" and "workers s \<noteq> []"
  shows "awake s \<or> notifier s"
  using reachable_wake_inv [OF assms(1)] assms(2,3) by (simp add: wake_inv_def)

theorem no_lost_wakeup_witness:
  "tasks st_emplaced \<noteq> [] \<and> workers st_emplaced \<noteq> [] \<and> \<not> awake st_emplaced \<and>
   notifier st_emplaced"
  using no_lost_wakeup [OF st_emplaced_reachable]
  by (simp add: st_emplaced_fields awake_def)

text \<open>
  C26. Nobody sleeps after the destructor has called \<^verbatim>\<open>notify_all\<close>: from then
  on no thread is blocked inside \<^verbatim>\<open>wait\<close>, so every worker reaches the test of
  line 51.
\<close>

theorem no_sleeper_after_notify_all:
  assumes "reachable s" and "notified (opc s)"
  shows "condition s = {}"
  using reachable_quiet_inv [OF assms(1)] assms(2) by (simp add: quiet_inv_def)

theorem no_sleeper_after_notify_all_witness:
  "opc st_late = D_Join 0 \<and> condition st_late = {}"
  using no_sleeper_after_notify_all [OF st_late_reachable] by (simp add: st_late_fields)

text \<open>
  C9. No deadlock. In every reachable state without a fault, as long as the
  destructor has not returned, some thread of the program can execute its next
  statement: the owner, a worker, or a caller inside \<^verbatim>\<open>enqueue\<close>. No new call
  and no spurious wake-up is needed for that.
\<close>

theorem deadlock_free:
  assumes "reachable s" and "fault s = None" and "opc s \<noteq> D_Done"
  shows "\<exists>e. internal e \<and> fire e s \<noteq> None"
  using reachable_can_move [OF assms] by (simp add: can_move_def)

theorem deadlock_free_witness:
  "fault st_late = None \<and> opc st_late = D_Join 0 \<and> owner_step st_late = None \<and>
   worker_step 0 st_late = None \<and> (\<exists>e. internal e \<and> fire e st_late \<noteq> None)"
  using deadlock_free [OF st_late_reachable]
  by (simp add: st_late_fields owner_step_None_iff worker_step_None_iff)

section \<open>The pool comes to an end\<close>

text \<open>
  C10. Every accepted task is called. Take a reachable state of a pool with at
  least one thread in which every task accepted so far, and every task that a
  caller inside \<^verbatim>\<open>enqueue\<close> is handing over, returns from its call. Let the
  scheduler run the owner, the workers and these callers (the list \<open>ts\<close> names
  them), with no new call and no spurious wake-up. Then \<open>pot\<close> statements are
  enough fuel: the run ends, the destructor has returned, the queue is empty,
  and every task that was accepted before or during the run has been called
  exactly as often as it was accepted.
\<close>

theorem accepted_tasks_are_called:
  assumes r: "reachable s" and c: "covers (set ts) s" and w: "all_well_behaved s"
    and n: "threads s \<noteq> 0"
  shows "\<exists>s'. run (pot (set ts) s) ts s = Some s' \<and> opc s' = D_Done \<and> tasks s' = [] \<and>
    set (accepted s) \<subseteq> set (accepted s') \<and>
    mset (map snd (started s')) = mset (accepted s')"
proof -
  from run_total [OF reachable_wf_pool [OF r] c order_refl]
  obtain s' where run: "run (pot (set ts) s) ts s = Some s'" ..
  from run_stuck [OF r c run] obtain es where "list_all internal es"
    and "exec es s = Some s'" and "\<not> can_move s'"
    by blast
  from exec_stuck_drained [OF r w n this(2,1,3)] run show ?thesis
    by simp
qed

theorem accepted_tasks_are_called_witness:
  "accepted st_emplaced = [T 1] \<and> frames st_emplaced (Client 0) \<noteq> None \<and>
   (\<exists>s'. run 30 [Client 0] st_emplaced = Some s' \<and> opc s' = D_Done \<and> tasks s' = [] \<and>
      T 1 \<in> set (accepted s') \<and> mset (map snd (started s')) = mset (accepted s'))"
  using accepted_tasks_are_called [of st_emplaced "[Client 0]"] st_emplaced_reachable
    st_emplaced_covers st_emplaced_well_behaved
  by (simp add: st_emplaced_pot st_emplaced_threads st_emplaced_fields)

text \<open>
  C11. A closed pool terminates. From every reachable state, the scheduler that
  runs the owner, the workers and the callers inside \<^verbatim>\<open>enqueue\<close> comes to a
  state in which no thread has a statement left, within \<open>pot\<close> statements; in
  that state the destructor has returned or an exception of a task has
  terminated the process. So no run leaves the owner blocked in \<^verbatim>\<open>join\<close> or on
  the mutex, and none goes on for ever. (A caller can still be inside
  \<^verbatim>\<open>enqueue\<close> when the destructor returns: the destructor does not wait for
  it.)
\<close>

theorem closed_pool_terminates:
  assumes "reachable s" and "covers (set ts) s"
  shows "\<exists>s'. run (pot (set ts) s) ts s = Some s' \<and> reachable s' \<and>
    (fault s' \<noteq> None \<or> opc s' = D_Done)"
proof -
  from run_total [OF reachable_wf_pool [OF assms(1)] assms(2) order_refl]
  obtain s' where "run (pot (set ts) s) ts s = Some s'" ..
  with run_final [OF assms this] show ?thesis by simp
qed

theorem closed_pool_terminates_witness:
  "\<exists>s'. run 27 [] st_queued = Some s' \<and> reachable s' \<and>
     (fault s' \<noteq> None \<or> opc s' = D_Done)"
  using closed_pool_terminates [of st_queued "[]"] st_queued_reachable st_queued_covers
  by (simp add: st_queued_pot)

text \<open>
  C20. No run of a closed pool is longer than its potential, whatever the
  scheduler does: a schedule of statements of the owner, the workers and the
  callers inside \<^verbatim>\<open>enqueue\<close> lowers \<open>pot\<close> by at least its length. For a fresh
  pool of \<open>n\<close> threads the bound is \<open>12 * n + 8\<close> statements, plus 9 for a
  queued task and at most 20 for a call in progress.
\<close>

theorem bounded_internal_runs:
  assumes "reachable s" and "covers F s" and "exec es s = Some s'"
    and "list_all internal es"
  shows "length es + pot F s' \<le> pot F s"
  using exec_pot [OF assms(3,4) reachable_wf_pool [OF assms(1)] assms(2)] .

theorem bounded_internal_runs_witness:
  "list_all internal sched_drain \<and> exec sched_drain st_queued = Some st_drained \<and>
   19 + pot {} st_drained \<le> 27"
  using bounded_internal_runs [OF st_queued_reachable st_queued_covers st_drained_exec]
  by (simp add: sched_drain_internal st_drained_exec st_queued_pot)

text \<open>
  C12. Whatever the scheduler does: when the owner, the workers and the callers
  inside \<^verbatim>\<open>enqueue\<close> have run, in any order, from a reachable state of a pool
  with at least one thread and well-behaved tasks to a state in which none of
  them has a statement left, the destructor has returned, the queue is empty
  and every accepted task has been called exactly as often as it was accepted.
\<close>

theorem every_maximal_run_drains:
  assumes "reachable s" and "all_well_behaved s" and "threads s \<noteq> 0"
    and "exec es s = Some s'" and "list_all internal es" and "\<not> can_move s'"
  shows "opc s' = D_Done \<and> tasks s' = [] \<and> set (accepted s) \<subseteq> set (accepted s') \<and>
    mset (map snd (started s')) = mset (accepted s')"
  using assms by (rule exec_stuck_drained)

theorem every_maximal_run_drains_witness:
  "list_all internal sched_drain \<and> exec sched_drain st_queued = Some st_drained \<and>
   \<not> can_move st_drained \<and> opc st_drained = D_Done \<and> tasks st_drained = [] \<and>
   mset (map snd (started st_drained)) = mset (accepted st_drained)"
  using every_maximal_run_drains [OF st_queued_reachable st_queued_well_behaved _
    st_drained_exec _ st_drained_stuck]
  by (simp add: sched_drain_internal st_drained_exec st_drained_stuck st_queued_threads)

text \<open>
  C21. The length of a run with calls. A run of a pool of \<open>n\<close> threads from its
  construction on, in which no wake-up is spurious and the callers of
  \<^verbatim>\<open>enqueue\<close> are among finitely many threads, has at most \<open>12 * n + 8\<close>
  statements and 21 more for every call of \<^verbatim>\<open>enqueue\<close>: a call adds what it and
  the worker that takes its task can do, and nothing else makes a run longer.
\<close>

theorem run_length_bound:
  assumes "exec es (ThreadPool_init n) = Some s" and "finite F"
    and "list_all (admitted F) es"
  shows "length es + pot F s \<le> 12 * unat n + 8 + sum_list (map cost es)"
  using exec_admitted [OF assms(1,3) wf_pool_init] assms(2)
  by (simp add: covers_def pot_init)

theorem run_length_bound_witness:
  "list_all (admitted {Client 0}) sched_full \<and>
   exec sched_full (ThreadPool_init 1) = Some st_final \<and>
   31 + pot {Client 0} st_final \<le> 41"
  using run_length_bound [OF st_final_exec, of "{Client 0}"]
  by (simp add: st_final_exec sched_full_cost)

section \<open>The stop flag\<close>

text \<open>
  C37. The stop flag is never cleared: if it is set before a schedule runs, it
  is set after.
\<close>

theorem stop_is_final:
  assumes "exec es s = Some s'" and "stop s"
  shows "stop s'"
  using assms(1) _ assms(2)
  by (rule exec_invariant [where Q = "\<lambda>_. True"])
     (simp_all add: list_all_iff step_stop_mono [OF fire_step])

theorem stop_is_final_witness:
  "stop st_late \<and> exec [Ev_Enqueue (Client 0) 0, Ev_Worker 0] st_late = Some st_resumed \<and>
   stop st_resumed"
  using stop_is_final [of "[Ev_Enqueue (Client 0) 0, Ev_Worker 0]" st_late st_resumed]
  by (simp add: st_late_fields st_late_step st_rejected_step)

text \<open>
  C38. The stop flag is set exactly from the assignment of line 85 in the
  destructor on: in every reachable state, \<open>stop\<close> holds if and only if the
  owner is past that statement.
\<close>

theorem stop_flag_iff:
  assumes "reachable s"
  shows "stop s = stopping (opc s)"
  using reachable_stop_inv [OF assms] by (simp add: stop_inv_def)

theorem stop_flag_iff_witness:
  "opc st_emplaced = O_Live \<and> \<not> stop st_emplaced \<and> opc st_late = D_Join 0 \<and> stop st_late"
  using stop_flag_iff [OF st_emplaced_reachable] stop_flag_iff [OF st_late_reachable]
  by (simp add: st_emplaced_fields st_late_fields)

section \<open>Schedules and steps\<close>


section \<open>The pool right after construction\<close>


end
